theory Spec2Isabelle
  imports Complex_Main "HOL-Library.AList"
begin

section \<open>Exceptions as values\<close>

text \<open>
  Every Python exception the clash detector can raise is a value of \<open>error\<close>; a function
  that can raise returns \<open>error + 'a\<close>, with \<open>Inl\<close> for the exception.
  \<open>RecursionError\<close> is what the interpreter raises when the recursion of
  \<open>find_decomposed_ifc_class\<close> exceeds the depth the interpreter allows.
\<close>

datatype error = IndexError | AttributeError | RuntimeError | RecursionError | OSError

fun ebind :: "error + 'a \<Rightarrow> ('a \<Rightarrow> error + 'b) \<Rightarrow> error + 'b" where
  "ebind (Inl e) k = Inl e"
| "ebind (Inr v) k = k v"

text \<open>\<open>xs[i]\<close> on a tuple or list, for an index that is not negative.\<close>

definition getitem :: "'a list \<Rightarrow> nat \<Rightarrow> error + 'a" where
  "getitem xs i = (if i < length xs then Inr (xs ! i) else Inl IndexError)"

section \<open>Shapes and meshes\<close>

text \<open>
  A shape as the geometry iterator hands it out: \<open>shape.guid\<close>, \<open>shape.geometry.id\<close>
  (a string of the geometry library), \<open>shape.geometry.faces\<close>, \<open>shape.geometry.verts\<close>
  (both flat tuples) and \<open>shape.transformation.matrix.data\<close>.
\<close>

record shape =
  guid :: string
  geometry_id :: string
  geometry_faces :: "int list"
  geometry_verts :: "real list"
  matrix_data :: "real list"

record mesh =
  faces :: "int list list"
  vertices :: "real list list"

text \<open>\<open>range(0, n, 3)\<close>.\<close>

definition range3 :: "nat \<Rightarrow> nat list" where
  "range3 n = map (\<lambda>k. 3 * k) [0 ..< (n + 2) div 3]"

text \<open>
  The comprehension \<open>[[v[i], v[i + 1], v[i + 2]] for i in ...]\<close>: the three reads of each
  round happen in this order, and the first read out of range raises.
\<close>

fun triples :: "'a list \<Rightarrow> nat list \<Rightarrow> error + 'a list list" where
  "triples v [] = Inr []"
| "triples v (i # ks) =
     ebind (getitem v i) (\<lambda>x.
     ebind (getitem v (i + 1)) (\<lambda>y.
     ebind (getitem v (i + 2)) (\<lambda>z.
     ebind (triples v ks) (\<lambda>rest. Inr ([x, y, z] # rest)))))"

definition create_mesh :: "shape \<Rightarrow> error + mesh" where
  "create_mesh shape =
     (let f = geometry_faces shape; v = geometry_verts shape in
      ebind (triples v (range3 (length v))) (\<lambda>vs.
      ebind (triples f (range3 (length f))) (\<lambda>fs.
      Inr \<lparr>faces = fs, vertices = vs\<rparr>)))"

text \<open>
  The array built from the twelve entries of the shape's matrix. The reads \<open>m[0]\<close> to
  \<open>m[11]\<close> raise exactly when the tuple has fewer than twelve entries.
\<close>

definition transformation :: "real list \<Rightarrow> error + real list list" where
  "transformation m =
     (if length m < 12 then Inl IndexError
      else Inr [[m ! 0, m ! 3, m ! 6, m ! 9],
                [m ! 1, m ! 4, m ! 7, m ! 10],
                [m ! 2, m ! 5, m ! 8, m ! 11],
                [0, 0, 0, 1]])"

section \<open>The model file\<close>

text \<open>
  An opened IFC file is a store of entity instances, addressed by their step ids. The
  rooted elements are kept in file order (\<open>by_type\<close> enumerates them); the placement
  entities the normalisation writes to are maps from ids, one map per entity class, so
  that two placements that refer to the same point or direction share it.
  \<open>IsDecomposedBy\<close> lists, for each aggregation relationship of the element, the ids of
  its \<open>RelatedObjects\<close>.
\<close>

record element =
  ifc_class :: string
  supertypes :: "string list"
  GlobalId :: string
  Name :: "string option"
  ObjectPlacement :: "nat option"
  IsDecomposedBy :: "nat list list"

record axis2placement3d =
  Location :: "nat option"
  Axis :: "nat option"
  RefDirection :: "nat option"

record ifc_file =
  elements :: "(nat \<times> element) list"
  local_placements :: "nat \<rightharpoonup> nat"
  axis_placements :: "nat \<rightharpoonup> axis2placement3d"
  cartesian_points :: "nat \<rightharpoonup> real list"
  directions :: "nat \<rightharpoonup> real list"

text \<open>\<open>element.is_a(c)\<close>: the element's class is \<open>c\<close> or a subtype of it.\<close>

definition is_a :: "element \<Rightarrow> string \<Rightarrow> bool" where
  "is_a el c = (c = ifc_class el \<or> c \<in> set (supertypes el))"

definition by_type :: "ifc_file \<Rightarrow> string \<Rightarrow> nat list" where
  "by_type f c = map fst (filter (\<lambda>p. is_a (snd p) c) (elements f))"

text \<open>Following a reference to an element; a reference to nothing is an error.\<close>

definition deref :: "ifc_file \<Rightarrow> nat \<Rightarrow> error + element" where
  "deref f i = (case map_of (elements f) i of None \<Rightarrow> Inl RuntimeError | Some el \<Rightarrow> Inr el)"

text \<open>\<open>by_guid\<close> (and \<open>by_id\<close> called with a GlobalId) raises when no element has the id.\<close>

definition by_guid :: "ifc_file \<Rightarrow> string \<Rightarrow> error + element" where
  "by_guid f g =
     (case find (\<lambda>p. GlobalId (snd p) = g) (elements f) of
        None \<Rightarrow> Inl RuntimeError
      | Some p \<Rightarrow> Inr (snd p))"

text \<open>
  \<open>remove\<close> takes the instance out of the file. The detector reads no relationship after
  it has purged a file, so the references other entities hold to the instance stay as
  they are here.
\<close>

definition remove :: "ifc_file \<Rightarrow> nat \<Rightarrow> ifc_file" where
  "remove f i = f\<lparr>elements := filter (\<lambda>p. fst p \<noteq> i) (elements f)\<rparr>"

subsection \<open>Decomposition search\<close>

text \<open>
  The two nested loops of \<open>find_decomposed_ifc_class\<close>, over the relationships and over
  the parts of each, with the recursive call as a parameter.
\<close>

fun for_parts ::
  "(nat \<Rightarrow> error + nat list) \<Rightarrow> ifc_file \<Rightarrow> string \<Rightarrow> nat list \<Rightarrow> nat list \<Rightarrow> error + nat list"
where
  "for_parts rec f c results [] = Inr results"
| "for_parts rec f c results (part # parts) =
     ebind (deref f part) (\<lambda>el.
     let results1 = (if is_a el c then results @ [part] else results) in
     ebind (rec part) (\<lambda>sub.
     for_parts rec f c (results1 @ sub) parts))"

fun for_rels ::
  "(nat \<Rightarrow> error + nat list) \<Rightarrow> ifc_file \<Rightarrow> string \<Rightarrow> nat list \<Rightarrow> nat list list \<Rightarrow> error + nat list"
where
  "for_rels rec f c results [] = Inr results"
| "for_rels rec f c results (rel_aggregate # rels) =
     ebind (for_parts rec f c results rel_aggregate) (\<lambda>results'.
     for_rels rec f c results' rels)"

text \<open>
  The first argument is the number of nested calls the interpreter still allows; the
  search raises \<open>RecursionError\<close> when it is used up.
\<close>

primrec find_decomposed_ifc_class :: "nat \<Rightarrow> ifc_file \<Rightarrow> nat \<Rightarrow> string \<Rightarrow> error + nat list" where
  "find_decomposed_ifc_class 0 f element c = Inl RecursionError"
| "find_decomposed_ifc_class (Suc n) f element c =
     ebind (deref f element) (\<lambda>el.
     let rel_aggregates = IsDecomposedBy el in
     if rel_aggregates = [] then Inr []
     else for_rels (\<lambda>part. find_decomposed_ifc_class n f part c) f c [] rel_aggregates)"

subsection \<open>Placement normalisation\<close>

text \<open>
  \<open>element.ObjectPlacement.RelativePlacement\<close>: the chain raises \<open>AttributeError\<close> where
  the element has no placement, or the placement is not a local placement, or its relative
  placement is not an axis placement with the three attributes. Assigning to
  \<open>Location.Coordinates\<close> or to the \<open>DirectionRatios\<close> of a direction writes to the
  entity referred to, and raises when there is none. The tests \<open>if ... .Axis:\<close> and
  \<open>if ... .RefDirection:\<close> are true for an entity and false for \<open>None\<close>.
\<close>

definition RelativePlacement :: "ifc_file \<Rightarrow> nat \<Rightarrow> error + axis2placement3d" where
  "RelativePlacement f element =
     ebind (deref f element) (\<lambda>el.
     case ObjectPlacement el of None \<Rightarrow> Inl AttributeError | Some lp \<Rightarrow>
     (case local_placements f lp of None \<Rightarrow> Inl AttributeError | Some rp \<Rightarrow>
     (case axis_placements f rp of None \<Rightarrow> Inl AttributeError | Some p \<Rightarrow> Inr p)))"

definition set_Coordinates :: "ifc_file \<Rightarrow> nat option \<Rightarrow> real list \<Rightarrow> error + ifc_file" where
  "set_Coordinates f loc v =
     (case loc of None \<Rightarrow> Inl AttributeError | Some l \<Rightarrow>
      (case cartesian_points f l of None \<Rightarrow> Inl AttributeError
       | Some old \<Rightarrow> Inr (f\<lparr>cartesian_points := (cartesian_points f)(l \<mapsto> v)\<rparr>)))"

definition set_DirectionRatios :: "ifc_file \<Rightarrow> nat \<Rightarrow> real list \<Rightarrow> error + ifc_file" where
  "set_DirectionRatios f d v =
     (case directions f d of None \<Rightarrow> Inl AttributeError
      | Some old \<Rightarrow> Inr (f\<lparr>directions := (directions f)(d \<mapsto> v)\<rparr>))"

definition patch_placement_to_origin :: "ifc_file \<Rightarrow> nat \<Rightarrow> error + ifc_file" where
  "patch_placement_to_origin f element =
     ebind (RelativePlacement f element) (\<lambda>p.
     ebind (set_Coordinates f (Location p) [0, 0, 0]) (\<lambda>f1.
     ebind (RelativePlacement f1 element) (\<lambda>p1.
     ebind (case Axis p1 of None \<Rightarrow> Inr f1
            | Some a \<Rightarrow> set_DirectionRatios f1 a [0, 0, 1]) (\<lambda>f2.
     ebind (RelativePlacement f2 element) (\<lambda>p2.
     case RefDirection p2 of None \<Rightarrow> Inr f2
     | Some r \<Rightarrow> set_DirectionRatios f2 r [1, 0, 0])))))"

fun patch_each :: "ifc_file \<Rightarrow> nat list \<Rightarrow> error + ifc_file" where
  "patch_each f [] = Inr f"
| "patch_each f (e # es) = ebind (patch_placement_to_origin f e) (\<lambda>f'. patch_each f' es)"

section \<open>The clash detector\<close>

text \<open>
  The detector computes nothing with floating point numbers. Those it only moves
  (coordinates, matrix entries, normals, positions) are real numbers here. A penetration
  depth it compares with the tolerance, so depths and the tolerance are Python floats: a
  number, an infinity or NaN, with the comparisons of the language, in which every
  comparison with NaN is false. The tolerance \<open>0.01\<close> is the number \<open>1/100\<close>; the double the
  literal denotes is the one next to it, and no double lies between the two.
  What the detector logs is left out.
\<close>

datatype pyfloat = Float real | PosInf | NegInf | NaN

instantiation pyfloat :: ord
begin

fun less_pyfloat :: "pyfloat \<Rightarrow> pyfloat \<Rightarrow> bool" where
  "less_pyfloat NaN y = False"
| "less_pyfloat x NaN = False"
| "less_pyfloat (Float x) (Float y) = (x < y)"
| "less_pyfloat (Float x) PosInf = True"
| "less_pyfloat (Float x) NegInf = False"
| "less_pyfloat PosInf y = False"
| "less_pyfloat NegInf NegInf = False"
| "less_pyfloat NegInf y = True"

fun less_eq_pyfloat :: "pyfloat \<Rightarrow> pyfloat \<Rightarrow> bool" where
  "less_eq_pyfloat NaN y = False"
| "less_eq_pyfloat x NaN = False"
| "less_eq_pyfloat (Float x) (Float y) = (x \<le> y)"
| "less_eq_pyfloat (Float x) PosInf = True"
| "less_eq_pyfloat (Float x) NegInf = False"
| "less_eq_pyfloat PosInf PosInf = True"
| "less_eq_pyfloat PosInf y = False"
| "less_eq_pyfloat NegInf y = True"

instance ..

end

text \<open>
  The two sides of a run. The detector names its per-side attributes \<open>a\<close>, \<open>a_file\<close>,
  \<open>a_meshes\<close>, \<open>a_cm\<close> (and \<open>b\<close>, ...) and reaches them with \<open>getattr\<close>; here each
  is one field indexed by the side.
\<close>

datatype side = A | B

record ifc_clash_settings =
  "output" :: string

text \<open>A collision manager is the sequence of objects added to it: name, mesh, transform.\<close>

type_synonym collision_manager = "(string \<times> mesh \<times> real list list) list"

record contact =
  names :: "string \<times> string"
  raw_normal :: "real list"
  raw_pos :: "real list"
  raw_penetration_depth :: pyfloat

record clash_record =
  a_global_id :: string
  b_global_id :: string
  a_ifc_class :: string
  b_ifc_class :: string
  a_name :: "string option"
  b_name :: "string option"
  normal :: "real list"
  position :: "real list"
  penetration_depth :: pyfloat

text \<open>
  \<open>clashes\<close> is the dictionary of the report in insertion order. \<open>create_mesh_calls\<close> is
  not an attribute of the detector: it records, for each call of \<open>create_mesh\<close>, the side
  and the geometry id it was called for.
\<close>

record ifc_clasher =
  settings :: ifc_clash_settings
  tolerance :: pyfloat
  ifc :: "side \<Rightarrow> ifc_file option"
  ifc_path :: "side \<Rightarrow> string"
  clashes :: "(string \<times> clash_record) list"
  meshes :: "side \<Rightarrow> string \<rightharpoonup> mesh"
  cm :: "side \<Rightarrow> collision_manager option"
  create_mesh_calls :: "(side \<times> string) list"

definition IfcClasher :: "string \<Rightarrow> string \<Rightarrow> ifc_clash_settings \<Rightarrow> ifc_clasher" where
  "IfcClasher a_file b_file s =
     \<lparr>settings = s, tolerance = Float (1 / 100), ifc = (\<lambda>ab. None),
      ifc_path = (\<lambda>ab. case ab of A \<Rightarrow> a_file | B \<Rightarrow> b_file),
      clashes = [], meshes = (\<lambda>ab. Map.empty), cm = (\<lambda>ab. None),
      create_mesh_calls = []\<rparr>"

text \<open>
  What the detector calls outside its own code: opening a file, the geometry iterator
  over an opened file, the interference query of one collision manager against another,
  and the depth of recursion the interpreter allows.
\<close>

record geom_iterator =
  initialize :: bool
  current :: "shape option"
  pending :: "shape option list"

record collaborators =
  ifc_open :: "string \<Rightarrow> error + ifc_file"
  iterator :: "ifc_file \<Rightarrow> geom_iterator"
  in_collision_other :: "collision_manager \<Rightarrow> collision_manager \<Rightarrow> bool \<times> contact list"
  recursion_limit :: nat

definition the_ifc :: "ifc_clasher \<Rightarrow> side \<Rightarrow> error + ifc_file" where
  "the_ifc st ab = (case ifc st ab of None \<Rightarrow> Inl AttributeError | Some f \<Rightarrow> Inr f)"

definition the_cm :: "ifc_clasher \<Rightarrow> side \<Rightarrow> error + collision_manager" where
  "the_cm st ab = (case cm st ab of None \<Rightarrow> Inl AttributeError | Some m \<Rightarrow> Inr m)"

subsection \<open>Normalising and purging a side\<close>

definition patch_ifc :: "nat \<Rightarrow> side \<Rightarrow> ifc_clasher \<Rightarrow> error + ifc_clasher" where
  "patch_ifc limit ab st =
     ebind (the_ifc st ab) (\<lambda>f.
     ebind (getitem (by_type f ''IfcProject'') 0) (\<lambda>project.
     ebind (find_decomposed_ifc_class limit f project ''IfcSite'') (\<lambda>sites.
     ebind (patch_each f sites) (\<lambda>f1.
     ebind (find_decomposed_ifc_class limit f1 project ''IfcBuilding'') (\<lambda>buildings.
     ebind (patch_each f1 buildings) (\<lambda>f2.
     Inr (st\<lparr>ifc := (ifc st)(ab := Some f2)\<rparr>)))))))"

definition purge_elements :: "side \<Rightarrow> ifc_clasher \<Rightarrow> error + ifc_clasher" where
  "purge_elements ab st =
     ebind (the_ifc st ab) (\<lambda>f.
     Inr (st\<lparr>ifc := (ifc st)(ab := Some (fold (\<lambda>element g. remove g element) (by_type f ''IfcSpace'') f))\<rparr>))"

subsection \<open>Building the collision objects of a side\<close>

text \<open>
  \<open>mat.transpose()\<close> returns a new array and leaves \<open>mat\<close> as it is; the detector drops
  the result, so the array passed to \<open>add_object\<close> is \<open>mat\<close> as built.
\<close>

definition add_collision_object :: "side \<Rightarrow> ifc_clasher \<Rightarrow> shape option \<Rightarrow> error + ifc_clasher" where
  "add_collision_object ab st sh =
     (case sh of None \<Rightarrow> Inr st | Some shape \<Rightarrow>
      ebind (the_ifc st ab) (\<lambda>f.
      ebind (by_guid f (guid shape)) (\<lambda>element.
      let mesh_name = ''mesh-'' @ geometry_id shape in
      ebind (case meshes st ab mesh_name of
               Some cached \<Rightarrow> Inr (cached, st)
             | None \<Rightarrow>
                 ebind (create_mesh shape) (\<lambda>built.
                 Inr (built, st\<lparr>meshes := (meshes st)(ab := (meshes st ab)(mesh_name \<mapsto> built)),
                                create_mesh_calls := create_mesh_calls st @ [(ab, geometry_id shape)]\<rparr>)))
        (\<lambda>(mesh, st1).
      ebind (transformation (matrix_data shape)) (\<lambda>mat.
      let discarded = transpose mat in
      ebind (the_cm st1 ab) (\<lambda>objs.
      Inr (st1\<lparr>cm := (cm st1)(ab := Some (objs @ [(guid shape, mesh, mat)]))\<rparr>)))))))"

text \<open>
  The loop of \<open>add_collision_objects\<close>: the shape at the iterator's position is added,
  then \<open>next()\<close> moves on, until it returns false. The progress bar it prints is left out.
\<close>

fun add_collision_loop :: "side \<Rightarrow> ifc_clasher \<Rightarrow> shape option \<Rightarrow> shape option list \<Rightarrow> error + ifc_clasher" where
  "add_collision_loop ab st cur [] = add_collision_object ab st cur"
| "add_collision_loop ab st cur (nxt # rest) =
     ebind (add_collision_object ab st cur) (\<lambda>st'. add_collision_loop ab st' nxt rest)"

text \<open>The result is \<open>Some False\<close> for \<open>return False\<close> and \<open>None\<close> when the function falls off its end.\<close>

definition add_collision_objects :: "collaborators \<Rightarrow> side \<Rightarrow> ifc_clasher \<Rightarrow> error + (ifc_clasher \<times> bool option)" where
  "add_collision_objects env ab st =
     ebind (the_ifc st ab) (\<lambda>f.
     let it = iterator env f; valid_file = initialize it in
     if \<not> valid_file then Inr (st, Some False)
     else ebind (add_collision_loop ab st (current it) (pending it)) (\<lambda>st'. Inr (st', None)))"

subsection \<open>The run\<close>

text \<open>The body of the loop over the two sides in \<open>clash\<close>, up to the new collision manager.\<close>

definition prepare_side :: "collaborators \<Rightarrow> side \<Rightarrow> ifc_clasher \<Rightarrow> error + ifc_clasher" where
  "prepare_side env ab st =
     ebind (ifc_open env (ifc_path st ab)) (\<lambda>f.
     ebind (patch_ifc (recursion_limit env) ab (st\<lparr>ifc := (ifc st)(ab := Some f)\<rparr>)) (\<lambda>st1.
     ebind (purge_elements ab st1) (\<lambda>st2.
     Inr (st2\<lparr>cm := (cm st2)(ab := Some [])\<rparr>))))"

definition load_side :: "collaborators \<Rightarrow> side \<Rightarrow> ifc_clasher \<Rightarrow> error + ifc_clasher" where
  "load_side env ab st =
     ebind (prepare_side env ab st) (\<lambda>st1.
     ebind (add_collision_objects env ab st1) (\<lambda>r. Inr (fst r)))"

text \<open>The body of the loop over the contacts.\<close>

definition clash_key :: "string \<Rightarrow> string \<Rightarrow> string" where
  "clash_key a_id b_id = a_id @ ''-'' @ b_id"

definition clash_contact :: "ifc_clasher \<Rightarrow> contact \<Rightarrow> error + ifc_clasher" where
  "clash_contact st c =
     (case names c of (a_id, b_id) \<Rightarrow>
      ebind (the_ifc st A) (\<lambda>fa.
      ebind (by_guid fa a_id) (\<lambda>a.
      ebind (the_ifc st B) (\<lambda>fb.
      ebind (by_guid fb b_id) (\<lambda>b.
      if raw_penetration_depth c < tolerance st then Inr st
      else Inr (st\<lparr>clashes := AList.update (clash_key a_id b_id)
                  \<lparr>a_global_id = a_id, b_global_id = b_id,
                   a_ifc_class = ifc_class a, b_ifc_class = ifc_class b,
                   a_name = Name a, b_name = Name b,
                   normal = raw_normal c, position = raw_pos c,
                   penetration_depth = raw_penetration_depth c\<rparr>
                  (clashes st)\<rparr>))))))"

fun clash_contacts :: "ifc_clasher \<Rightarrow> contact list \<Rightarrow> error + ifc_clasher" where
  "clash_contacts st [] = Inr st"
| "clash_contacts st (c # cs) = ebind (clash_contact st c) (\<lambda>st'. clash_contacts st' cs)"

text \<open>\<open>clash\<close> from the interference query on.\<close>

definition clash_query :: "collaborators \<Rightarrow> ifc_clasher \<Rightarrow> error + ifc_clasher" where
  "clash_query env st =
     ebind (the_cm st A) (\<lambda>a_cm.
     ebind (the_cm st B) (\<lambda>b_cm.
     let results = in_collision_other env a_cm b_cm in
     if \<not> fst results then Inr st
     else clash_contacts st (snd results)))"

definition clash :: "collaborators \<Rightarrow> ifc_clasher \<Rightarrow> error + ifc_clasher" where
  "clash env st =
     ebind (load_side env A st) (\<lambda>st1.
     ebind (load_side env B st1) (\<lambda>st2.
     clash_query env st2))"

subsection \<open>Export\<close>

text \<open>
  The document \<open>json.dump\<close> writes, as the JSON value it denotes (a number may be an
  infinity or NaN, which \<open>json.dump\<close> writes as such), and the files of the output
  destination: \<open>open\<close> for writing raises at a path it is denied.
\<close>

datatype json = JNull | JString string | JNumber pyfloat | JArray "json list" | JObject "(string \<times> json) list"

record filesystem =
  files :: "string \<rightharpoonup> json"
  denied :: "string \<Rightarrow> bool"

definition json_of_name :: "string option \<Rightarrow> json" where
  "json_of_name n = (case n of None \<Rightarrow> JNull | Some s \<Rightarrow> JString s)"

definition json_of_clash :: "clash_record \<Rightarrow> json" where
  "json_of_clash r =
     JObject [(''a_global_id'', JString (a_global_id r)),
              (''b_global_id'', JString (b_global_id r)),
              (''a_ifc_class'', JString (a_ifc_class r)),
              (''b_ifc_class'', JString (b_ifc_class r)),
              (''a_name'', json_of_name (a_name r)),
              (''b_name'', json_of_name (b_name r)),
              (''normal'', JArray (map (\<lambda>x. JNumber (Float x)) (normal r))),
              (''position'', JArray (map (\<lambda>x. JNumber (Float x)) (position r))),
              (''penetration_depth'', JNumber (penetration_depth r))]"

definition export :: "ifc_clasher \<Rightarrow> filesystem \<Rightarrow> error + filesystem" where
  "export st fs =
     (let path = output (settings st) in
      if denied fs path then Inl OSError
      else Inr (fs\<lparr>files := (files fs)(path \<mapsto> JArray (map json_of_clash (map snd (clashes st))))\<rparr>))"

text \<open>The script: build the detector, run \<open>clash\<close>, then \<open>export\<close>.\<close>

definition main :: "collaborators \<Rightarrow> string \<Rightarrow> string \<Rightarrow> ifc_clash_settings \<Rightarrow> filesystem \<Rightarrow> error + filesystem" where
  "main env a_file b_file s fs =
     ebind (clash env (IfcClasher a_file b_file s)) (\<lambda>st. export st fs)"

section \<open>Notions used in the statements\<close>

text \<open>The \<open>k\<close>-th group of three entries of a flat buffer.\<close>

definition triple_at :: "'a list \<Rightarrow> nat \<Rightarrow> 'a list" where
  "triple_at v k = [v ! (3 * k), v ! (3 * k + 1), v ! (3 * k + 2)]"

text \<open>
  The key a contact is filed under, and the record built for it once both labels resolve
  (\<open>clash_contact_step\<close> below relates them to the body of the loop).
\<close>

definition contact_key :: "contact \<Rightarrow> string" where
  "contact_key c = clash_key (fst (names c)) (snd (names c))"

definition clash_record_of :: "ifc_clasher \<Rightarrow> contact \<Rightarrow> error + clash_record" where
  "clash_record_of st c =
     ebind (the_ifc st A) (\<lambda>fa.
     ebind (by_guid fa (fst (names c))) (\<lambda>a.
     ebind (the_ifc st B) (\<lambda>fb.
     ebind (by_guid fb (snd (names c))) (\<lambda>b.
     Inr \<lparr>a_global_id = fst (names c), b_global_id = snd (names c),
          a_ifc_class = ifc_class a, b_ifc_class = ifc_class b,
          a_name = Name a, b_name = Name b,
          normal = raw_normal c, position = raw_pos c,
          penetration_depth = raw_penetration_depth c\<rparr>))))"

text \<open>The shapes of a stream, without the absent ones.\<close>

fun present :: "'a option list \<Rightarrow> 'a list" where
  "present [] = []"
| "present (None # xs) = present xs"
| "present (Some x # xs) = x # present xs"

text \<open>
  The loop of \<open>add_collision_objects\<close> as one pass over the stream
  (\<open>add_collision_loop_add_each\<close> below).
\<close>

fun add_each :: "side \<Rightarrow> ifc_clasher \<Rightarrow> shape option list \<Rightarrow> error + ifc_clasher" where
  "add_each ab st [] = Inr st"
| "add_each ab st (x # xs) = ebind (add_collision_object ab st x) (\<lambda>st'. add_each ab st' xs)"

text \<open>
  \<open>patch_ifc\<close> on the file alone, without the detector around it
  (\<open>patch_ifc_patch_file\<close> below); two files with the same
  entities, which may differ in the values of their points and directions; and a file with
  some points and directions overwritten.
\<close>

definition patch_file :: "nat \<Rightarrow> ifc_file \<Rightarrow> error + ifc_file" where
  "patch_file limit f =
     ebind (getitem (by_type f ''IfcProject'') 0) (\<lambda>project.
     ebind (find_decomposed_ifc_class limit f project ''IfcSite'') (\<lambda>sites.
     ebind (patch_each f sites) (\<lambda>f1.
     ebind (find_decomposed_ifc_class limit f1 project ''IfcBuilding'') (\<lambda>buildings.
     patch_each f1 buildings))))"

definition same_entities :: "ifc_file \<Rightarrow> ifc_file \<Rightarrow> bool" where
  "same_entities f g \<longleftrightarrow>
     elements f = elements g \<and> local_placements f = local_placements g \<and>
     axis_placements f = axis_placements g \<and>
     dom (cartesian_points f) = dom (cartesian_points g) \<and>
     dom (directions f) = dom (directions g)"

definition overwrite :: "(nat \<rightharpoonup> real list) \<Rightarrow> (nat \<rightharpoonup> real list) \<Rightarrow> ifc_file \<Rightarrow> ifc_file" where
  "overwrite pm dm g =
     g\<lparr>cartesian_points := cartesian_points g ++ pm, directions := directions g ++ dm\<rparr>"

text \<open>The directions \<open>patch_placement_to_origin\<close> writes for a placement, the later write last.\<close>

definition canonical_directions :: "axis2placement3d \<Rightarrow> (nat \<rightharpoonup> real list)" where
  "canonical_directions p =
     (case Axis p of None \<Rightarrow> Map.empty | Some a \<Rightarrow> [a \<mapsto> [0, 0, 1]]) ++
     (case RefDirection p of None \<Rightarrow> Map.empty | Some r \<Rightarrow> [r \<mapsto> [1, 0, 0]])"

text \<open>
  What a run of \<open>patch_each\<close> over some elements writes, as the code decides it from their
  placements: the points, and the directions with the later write over the earlier; and
  the direction entities that are the axis, or the reference direction, of one of the
  elements.
\<close>

fun written_points :: "ifc_file \<Rightarrow> nat list \<Rightarrow> (nat \<rightharpoonup> real list)" where
  "written_points f [] = Map.empty"
| "written_points f (t # ts) =
     (case RelativePlacement f t of
        Inl e \<Rightarrow> Map.empty
      | Inr p \<Rightarrow> (case Location p of None \<Rightarrow> Map.empty | Some l \<Rightarrow> [l \<mapsto> [0, 0, 0]])) ++
     written_points f ts"

fun written_directions :: "ifc_file \<Rightarrow> nat list \<Rightarrow> (nat \<rightharpoonup> real list)" where
  "written_directions f [] = Map.empty"
| "written_directions f (t # ts) =
     (case RelativePlacement f t of Inl e \<Rightarrow> Map.empty | Inr p \<Rightarrow> canonical_directions p) ++
     written_directions f ts"

definition axis_entities :: "ifc_file \<Rightarrow> nat list \<Rightarrow> nat set" where
  "axis_entities f ts = {a. \<exists>t \<in> set ts. \<exists>p. RelativePlacement f t = Inr p \<and> Axis p = Some a}"

definition ref_direction_entities :: "ifc_file \<Rightarrow> nat list \<Rightarrow> nat set" where
  "ref_direction_entities f ts =
     {r. \<exists>t \<in> set ts. \<exists>p. RelativePlacement f t = Inr p \<and> RefDirection p = Some r}"

text \<open>
  The decomposition relation of a file: an element and each of the parts its aggregation
  relationships list; and the elements the search is after.
\<close>

definition parts_of :: "ifc_file \<Rightarrow> nat \<Rightarrow> nat list" where
  "parts_of f e = (case map_of (elements f) e of None \<Rightarrow> [] | Some el \<Rightarrow> concat (IsDecomposedBy el))"

definition decomposition :: "ifc_file \<Rightarrow> (nat \<times> nat) set" where
  "decomposition f = {(e, p). p \<in> set (parts_of f e)}"

definition is_a_part :: "ifc_file \<Rightarrow> string \<Rightarrow> nat \<Rightarrow> bool" where
  "is_a_part f c p = (case map_of (elements f) p of None \<Rightarrow> False | Some el \<Rightarrow> is_a el c)"

definition decomposed_parts :: "ifc_file \<Rightarrow> string \<Rightarrow> nat \<Rightarrow> nat set" where
  "decomposed_parts f c e = {p. (e, p) \<in> (decomposition f)\<^sup>+ \<and> is_a_part f c p}"

section \<open>Example data\<close>

text \<open>A shape with one triangle, translated by \<open>(5, 6, 7)\<close>.\<close>

definition unit_triangle :: shape where
  "unit_triangle = \<lparr>guid = ''g1'', geometry_id = ''7'', geometry_faces = [0, 1, 2],
     geometry_verts = [0, 0, 0, 1, 0, 0, 0, 1, 0], matrix_data = [1, 0, 0, 0, 1, 0, 0, 0, 1, 5, 6, 7]\<rparr>"

text \<open>A small model: a project with a site, a building in the site, a wall and a space.\<close>

definition example_element :: "string \<Rightarrow> string \<Rightarrow> nat option \<Rightarrow> nat list list \<Rightarrow> element" where
  "example_element cls gid pl parts =
     \<lparr>ifc_class = cls, supertypes = [''IfcRoot''], GlobalId = gid, Name = Some gid,
      ObjectPlacement = pl, IsDecomposedBy = parts\<rparr>"

definition example_file :: ifc_file where
  "example_file =
     \<lparr>elements = [(100, example_element ''IfcProject'' ''project'' None [[101]]),
                  (101, example_element ''IfcSite'' ''site'' (Some 10) [[102]]),
                  (102, example_element ''IfcBuilding'' ''building'' (Some 11) []),
                  (103, example_element ''IfcWall'' ''g1'' None []),
                  (104, example_element ''IfcSpace'' ''g2'' None [])],
      local_placements = [10 \<mapsto> 20, 11 \<mapsto> 21],
      axis_placements = [20 \<mapsto> \<lparr>Location = Some 30, Axis = Some 40, RefDirection = Some 41\<rparr>,
                         21 \<mapsto> \<lparr>Location = Some 31, Axis = None, RefDirection = None\<rparr>],
      cartesian_points = [30 \<mapsto> [100, 200, 5], 31 \<mapsto> [1, 2, 3]],
      directions = [40 \<mapsto> [0, 1, 0], 41 \<mapsto> [0, 0, 1]]\<rparr>"

text \<open>A detector with this model loaded on both sides and two empty collision managers.\<close>

definition example_clasher :: ifc_clasher where
  "example_clasher =
     (IfcClasher ''a.ifc'' ''b.ifc'' \<lparr>output = ''clashes.json''\<rparr>)
       \<lparr>ifc := (\<lambda>ab. Some example_file), cm := (\<lambda>ab. Some [])\<rparr>"

text \<open>The example model after normalisation.\<close>

definition example_patched :: ifc_file where
  "example_patched =
     example_file\<lparr>cartesian_points := [30 \<mapsto> [0, 0, 0], 31 \<mapsto> [0, 0, 0]],
                  directions := [40 \<mapsto> [0, 0, 1], 41 \<mapsto> [1, 0, 0]]\<rparr>"

text \<open>A model whose site has one direction entity as its axis and as its reference direction.\<close>

definition shared_file :: ifc_file where
  "shared_file =
     example_file\<lparr>axis_placements :=
       [20 \<mapsto> \<lparr>Location = Some 30, Axis = Some 40, RefDirection = Some 40\<rparr>,
        21 \<mapsto> \<lparr>Location = Some 31, Axis = None, RefDirection = None\<rparr>]\<rparr>"

definition shared_patched :: ifc_file where
  "shared_patched =
     shared_file\<lparr>cartesian_points := [30 \<mapsto> [0, 0, 0], 31 \<mapsto> [0, 0, 0]],
                 directions := [41 \<mapsto> [0, 0, 1], 40 \<mapsto> [1, 0, 0]]\<rparr>"

definition shared_clasher :: ifc_clasher where
  "shared_clasher = example_clasher\<lparr>ifc := (\<lambda>ab. Some shared_file)\<rparr>"

text \<open>Contacts for the examples, and a model whose labels contain the character \<open>-\<close>.\<close>

definition example_contact :: "string \<Rightarrow> string \<Rightarrow> real \<Rightarrow> contact" where
  "example_contact a_id b_id depth =
     \<lparr>names = (a_id, b_id), raw_normal = [0, 0, 1], raw_pos = [1, 2, 3],
      raw_penetration_depth = Float depth\<rparr>"

definition dash_file :: ifc_file where
  "dash_file =
     \<lparr>elements = [(1, example_element ''IfcWall'' ''a-b'' None []),
                  (2, example_element ''IfcWall'' ''c'' None []),
                  (3, example_element ''IfcSlab'' ''a'' None []),
                  (4, example_element ''IfcSlab'' ''b-c'' None [])],
      local_placements = Map.empty, axis_placements = Map.empty,
      cartesian_points = Map.empty, directions = Map.empty\<rparr>"

definition dash_clasher :: ifc_clasher where
  "dash_clasher =
     (IfcClasher ''a.ifc'' ''b.ifc'' \<lparr>output = ''clashes.json''\<rparr>)
       \<lparr>ifc := (\<lambda>ab. Some dash_file), cm := (\<lambda>ab. Some [])\<rparr>"

text \<open>
  Collaborators for the examples: every path opens the example model, the geometry
  iterator fails to initialise, and the query reports no interference.
\<close>

definition example_env :: collaborators where
  "example_env =
     \<lparr>ifc_open = (\<lambda>path. Inr example_file),
      iterator = (\<lambda>f. \<lparr>initialize = False, current = None, pending = []\<rparr>),
      in_collision_other = (\<lambda>a_cm b_cm. (False, [])),
      recursion_limit = 4\<rparr>"

definition example_settings :: ifc_clash_settings where
  "example_settings = \<lparr>output = ''clashes.json''\<rparr>"

definition example_fs :: filesystem where
  "example_fs = \<lparr>files = Map.empty, denied = (\<lambda>path. False)\<rparr>"

section \<open>Basic facts about exceptions\<close>

lemma ebind_cong [fundef_cong]:
  "r = r' \<Longrightarrow> (\<And>v. r' = Inr v \<Longrightarrow> k v = k' v) \<Longrightarrow> ebind r k = ebind r' k'"
  by (cases r') auto

lemma ebind_Inr_iff: "ebind r k = Inr y \<longleftrightarrow> (\<exists>v. r = Inr v \<and> k v = Inr y)"
  by (cases r) auto

lemma ebind_Inl_iff: "ebind r k = Inl e \<longleftrightarrow> r = Inl e \<or> (\<exists>v. r = Inr v \<and> k v = Inl e)"
  by (cases r) auto

lemma triples_append:
  "triples v (xs @ ys) =
     ebind (triples v xs) (\<lambda>a. ebind (triples v ys) (\<lambda>b. Inr (a @ b)))"
proof (induction xs)
  case Nil
  show ?case by (cases "triples v ys") auto
next
  case (Cons i xs)
  show ?case
    apply (cases "getitem v i"; cases "getitem v (i + 1)"; cases "getitem v (i + 2)"; simp add: Cons)
    apply (cases "triples v xs"; simp)
    apply (cases "triples v ys"; simp)
    done
qed

lemma triples_in_range:
  "3 * n \<le> length v \<Longrightarrow> triples v (map (\<lambda>k. 3 * k) [0 ..< n]) = Inr (map (triple_at v) [0 ..< n])"
proof (induction n)
  case 0
  show ?case by simp
next
  case (Suc n)
  then show ?case
    by (simp add: triples_append getitem_def triple_at_def)
qed

lemma range3_dvd: "3 dvd n \<Longrightarrow> range3 n = map (\<lambda>k. 3 * k) [0 ..< n div 3]"
proof -
  assume "3 dvd n"
  then have "(n + 2) div 3 = n div 3" by presburger
  then show ?thesis unfolding range3_def by simp
qed

lemma range3_not_dvd: "\<not> 3 dvd n \<Longrightarrow> range3 n = map (\<lambda>k. 3 * k) [0 ..< n div 3] @ [3 * (n div 3)]"
proof -
  assume "\<not> 3 dvd n"
  then have "(n + 2) div 3 = Suc (n div 3)" by presburger
  then show ?thesis unfolding range3_def by simp
qed

lemma triples_range3_dvd:
  "3 dvd length v \<Longrightarrow> triples v (range3 (length v)) = Inr (map (triple_at v) [0 ..< length v div 3])"
  by (simp add: range3_dvd triples_in_range)

lemma triples_range3_not_dvd:
  assumes "\<not> 3 dvd length v"
  shows "triples v (range3 (length v)) = Inl IndexError"
proof -
  let ?q = "length v div 3"
  have le: "3 * ?q \<le> length v" by simp
  have "\<not> (3 * ?q + 2 < length v)" using assms by presburger
  then have "triples v [3 * ?q] = Inl IndexError"
    by (auto simp: getitem_def)
  then show ?thesis
    by (simp add: range3_not_dvd [OF assms] triples_append triples_in_range [OF le])
qed

lemma create_mesh_closed:
  "create_mesh s =
     (if 3 dvd length (geometry_verts s) \<and> 3 dvd length (geometry_faces s)
      then Inr \<lparr>faces = map (triple_at (geometry_faces s)) [0 ..< length (geometry_faces s) div 3],
                vertices = map (triple_at (geometry_verts s)) [0 ..< length (geometry_verts s) div 3]\<rparr>
      else Inl IndexError)"
proof (cases "3 dvd length (geometry_verts s)")
  case True
  then show ?thesis
    by (cases "3 dvd length (geometry_faces s)")
       (simp_all add: create_mesh_def Let_def triples_range3_dvd triples_range3_not_dvd)
next
  case False
  then show ?thesis
    by (simp add: create_mesh_def Let_def triples_range3_not_dvd)
qed

text \<open>
  C10. \<open>create_mesh\<close> returns a mesh exactly when the lengths of both flat buffers are
  divisible by 3. Then the mesh has one vertex for each three entries of \<open>verts\<close> and one
  face for each three entries of \<open>faces\<close>, vertex \<open>k\<close> being
  \<open>[v[3k], v[3k+1], v[3k+2]]\<close> and face \<open>k\<close> being \<open>[f[3k], f[3k+1], f[3k+2]]\<close>. When
  one of the lengths is not divisible by 3, the last round of the comprehension reads past
  the end of the buffer, which raises \<open>IndexError\<close>.
\<close>

theorem create_mesh_divisible_by_3:
  fixes s :: shape
  defines "v \<equiv> geometry_verts s" and "f \<equiv> geometry_faces s"
  shows "((\<exists>m. create_mesh s = Inr m) \<longleftrightarrow> 3 dvd length v \<and> 3 dvd length f) \<and>
         (\<forall>m. create_mesh s = Inr m \<longrightarrow>
            length (vertices m) = length v div 3 \<and>
            length (faces m) = length f div 3 \<and>
            (\<forall>k < length v div 3. vertices m ! k = [v ! (3 * k), v ! (3 * k + 1), v ! (3 * k + 2)]) \<and>
            (\<forall>k < length f div 3. faces m ! k = [f ! (3 * k), f ! (3 * k + 1), f ! (3 * k + 2)])) \<and>
         (\<not> (3 dvd length v \<and> 3 dvd length f) \<longrightarrow> create_mesh s = Inl IndexError)"
  unfolding v_def f_def
  by (auto simp: create_mesh_closed triple_at_def)

theorem create_mesh_divisible_by_3_witness:
  "create_mesh unit_triangle = Inr \<lparr>faces = [[0, 1, 2]], vertices = [[0, 0, 0], [1, 0, 0], [0, 1, 0]]\<rparr> \<and>
   create_mesh (unit_triangle\<lparr>geometry_verts := [0, 0, 0, 1]\<rparr>) = Inl IndexError"
proof -
  let ?bad = "unit_triangle\<lparr>geometry_verts := [0, 0, 0, 1]\<rparr>"
  have lv: "length (geometry_verts unit_triangle) = 9" and lf: "length (geometry_faces unit_triangle) = 3"
    by (simp_all add: unit_triangle_def)
  have d: "3 dvd (9::nat)" "3 dvd (3::nat)" "(9::nat) div 3 = 3" "(3::nat) div 3 = 1" by simp_all
  note inst = create_mesh_divisible_by_3 [of unit_triangle, unfolded lv lf d]
  from inst d(1,2) obtain m where m: "create_mesh unit_triangle = Inr m" by blast
  with inst have len: "length (vertices m) = 3" "length (faces m) = 1"
    and v: "\<forall>k<3. vertices m ! k = [geometry_verts unit_triangle ! (3 * k),
              geometry_verts unit_triangle ! (3 * k + 1), geometry_verts unit_triangle ! (3 * k + 2)]"
    and f: "\<forall>k<1. faces m ! k = [geometry_faces unit_triangle ! (3 * k),
              geometry_faces unit_triangle ! (3 * k + 1), geometry_faces unit_triangle ! (3 * k + 2)]"
    by blast+
  have "vertices m ! 0 = [0, 0, 0]" "vertices m ! 1 = [1, 0, 0]" "vertices m ! 2 = [0, 1, 0]"
    using v by (simp_all add: unit_triangle_def)
  with len have vs: "vertices m = [[0, 0, 0], [1, 0, 0], [0, 1, 0]]"
    by (auto simp: list_eq_iff_nth_eq less_Suc_eq numeral_3_eq_3 numeral_2_eq_2)
  have "faces m ! 0 = [0, 1, 2]"
    using f by (simp add: unit_triangle_def)
  with len have fs: "faces m = [[0, 1, 2]]"
    by (auto simp: list_eq_iff_nth_eq)
  have lb: "length (geometry_verts ?bad) = 4" by simp
  have nd: "\<not> 3 dvd (4::nat)" by simp
  have bad: "create_mesh ?bad = Inl IndexError"
    using create_mesh_divisible_by_3 [of ?bad, unfolded lb] nd by blast
  from vs fs have "m = \<lparr>faces = [[0, 1, 2]], vertices = [[0, 0, 0], [1, 0, 0], [0, 1, 0]]\<rparr>" by simp
  with m bad show ?thesis by simp
qed

section \<open>The transform of a collision object\<close>

lemma transformation_layout:
  assumes "transformation m = Inr mat"
  shows "12 \<le> length m"
    and "mat = [[m ! 0, m ! 3, m ! 6, m ! 9], [m ! 1, m ! 4, m ! 7, m ! 10],
                [m ! 2, m ! 5, m ! 8, m ! 11], [0, 0, 0, 1]]"
  using assms by (auto simp: transformation_def split: if_splits)

lemma add_collision_object_SomeD:
  assumes "add_collision_object ab st (Some shape) = Inr st'"
  shows "\<exists>f element mesh st1 mat objs.
           the_ifc st ab = Inr f \<and> by_guid f (guid shape) = Inr element \<and>
           (case meshes st ab (''mesh-'' @ geometry_id shape) of
              Some cached \<Rightarrow> mesh = cached \<and> st1 = st
            | None \<Rightarrow> create_mesh shape = Inr mesh \<and>
                st1 = st\<lparr>meshes := (meshes st)(ab := (meshes st ab)(''mesh-'' @ geometry_id shape \<mapsto> mesh)),
                         create_mesh_calls := create_mesh_calls st @ [(ab, geometry_id shape)]\<rparr>) \<and>
           transformation (matrix_data shape) = Inr mat \<and>
           the_cm st1 ab = Inr objs \<and>
           st' = st1\<lparr>cm := (cm st1)(ab := Some (objs @ [(guid shape, mesh, mat)]))\<rparr>"
  using assms
  by (auto simp: add_collision_object_def ebind_Inr_iff Let_def split: option.splits)

text \<open>
  C1. When \<open>add_collision_object\<close> adds a shape, the transform it passes to the side's
  collision manager is built from the twelve entries \<open>m\<close> of the shape's matrix: entry
  \<open>(r, c)\<close> of its upper left 3x3 block is \<open>m[3c + r]\<close>, the transpose of the first nine
  entries read row by row; its last column holds \<open>m[9]\<close>, \<open>m[10]\<close>, \<open>m[11]\<close>; its bottom
  row is \<open>[0, 0, 0, 1]\<close>. Read column by column, the array is the twelve entries in their
  order, each column of three closed by the entry of the bottom row.
\<close>

theorem add_collision_object_transform:
  assumes "add_collision_object ab st (Some shape) = Inr st'"
  shows "\<exists>objs mesh mat.
           cm st ab = Some objs \<and>
           cm st' ab = Some (objs @ [(guid shape, mesh, mat)]) \<and>
           12 \<le> length (matrix_data shape) \<and>
           mat = [[matrix_data shape ! 0, matrix_data shape ! 3, matrix_data shape ! 6, matrix_data shape ! 9],
                  [matrix_data shape ! 1, matrix_data shape ! 4, matrix_data shape ! 7, matrix_data shape ! 10],
                  [matrix_data shape ! 2, matrix_data shape ! 5, matrix_data shape ! 8, matrix_data shape ! 11],
                  [0, 0, 0, 1]] \<and>
           (\<forall>r<3. \<forall>c<3. mat ! r ! c = matrix_data shape ! (3 * c + r)) \<and>
           (\<forall>r<3. mat ! r ! 3 = matrix_data shape ! (9 + r)) \<and>
           mat ! 3 = [0, 0, 0, 1] \<and>
           concat (transpose mat) =
             [matrix_data shape ! 0, matrix_data shape ! 1, matrix_data shape ! 2, 0,
              matrix_data shape ! 3, matrix_data shape ! 4, matrix_data shape ! 5, 0,
              matrix_data shape ! 6, matrix_data shape ! 7, matrix_data shape ! 8, 0,
              matrix_data shape ! 9, matrix_data shape ! 10, matrix_data shape ! 11, 1]"
proof -
  from add_collision_object_SomeD [OF assms]
  obtain f element mesh st1 mat objs where
    st1: "case meshes st ab (''mesh-'' @ geometry_id shape) of
              Some cached \<Rightarrow> mesh = cached \<and> st1 = st
            | None \<Rightarrow> create_mesh shape = Inr mesh \<and>
                st1 = st\<lparr>meshes := (meshes st)(ab := (meshes st ab)(''mesh-'' @ geometry_id shape \<mapsto> mesh)),
                         create_mesh_calls := create_mesh_calls st @ [(ab, geometry_id shape)]\<rparr>"
    and tr: "transformation (matrix_data shape) = Inr mat"
    and objs: "the_cm st1 ab = Inr objs"
    and st': "st' = st1\<lparr>cm := (cm st1)(ab := Some (objs @ [(guid shape, mesh, mat)]))\<rparr>"
    by blast
  have "cm st1 = cm st" using st1 by (auto split: option.splits)
  with objs have a: "cm st ab = Some objs"
    by (auto simp: the_cm_def split: option.splits)
  have b: "cm st' ab = Some (objs @ [(guid shape, mesh, mat)])"
    using st' by simp
  note lay = transformation_layout [OF tr]
  have three: "r = 0 \<or> r = 1 \<or> r = 2" if "r < 3" for r :: nat
    using that by arith
  have c: "\<forall>r<3. \<forall>c<3. mat ! r ! c = matrix_data shape ! (3 * c + r)"
    by (auto simp: lay(2) numeral_2_eq_2 dest!: three)
  have d: "\<forall>r<3. mat ! r ! 3 = matrix_data shape ! (9 + r)"
    by (auto simp: lay(2) dest!: three)
  have e: "mat ! 3 = [0, 0, 0, 1]" by (simp add: lay(2))
  have g: "concat (transpose mat) =
             [matrix_data shape ! 0, matrix_data shape ! 1, matrix_data shape ! 2, 0,
              matrix_data shape ! 3, matrix_data shape ! 4, matrix_data shape ! 5, 0,
              matrix_data shape ! 6, matrix_data shape ! 7, matrix_data shape ! 8, 0,
              matrix_data shape ! 9, matrix_data shape ! 10, matrix_data shape ! 11, 1]"
    by (simp add: lay(2))
  from a b lay c d e g show ?thesis by blast
qed

lemma range3_examples: "range3 9 = [0, 3, 6]" "range3 3 = [0]" "range3 0 = []"
  by code_simp+

lemma create_mesh_unit_triangle:
  "create_mesh unit_triangle = Inr \<lparr>faces = [[0, 1, 2]], vertices = [[0, 0, 0], [1, 0, 0], [0, 1, 0]]\<rparr>"
proof -
  have "length (geometry_verts unit_triangle) = 9" "length (geometry_faces unit_triangle) = 3"
    by (simp_all add: unit_triangle_def)
  then show ?thesis
    by (simp add: create_mesh_def Let_def range3_examples)
       (simp add: unit_triangle_def getitem_def)
qed

lemma example_add_collision_object:
  "\<exists>st'. add_collision_object A example_clasher (Some unit_triangle) = Inr st'"
proof -
  have "by_guid example_file (guid unit_triangle) = Inr (example_element ''IfcWall'' ''g1'' None [])"
    by (simp add: by_guid_def example_file_def unit_triangle_def example_element_def)
  moreover have "transformation (matrix_data unit_triangle) =
      Inr [[1, 0, 0, 5], [0, 1, 0, 6], [0, 0, 1, 7], [0, 0, 0, 1]]"
    by (simp add: transformation_def unit_triangle_def)
  ultimately show ?thesis
    by (simp add: add_collision_object_def example_clasher_def IfcClasher_def the_ifc_def the_cm_def
      create_mesh_unit_triangle Let_def)
qed

theorem add_collision_object_transform_witness:
  "\<exists>st' mesh. add_collision_object A example_clasher (Some unit_triangle) = Inr st' \<and>
     cm st' A = Some [(''g1'', mesh, [[1, 0, 0, 5], [0, 1, 0, 6], [0, 0, 1, 7], [0, 0, 0, 1]])]"
proof -
  from example_add_collision_object obtain st'
    where st': "add_collision_object A example_clasher (Some unit_triangle) = Inr st'" ..
  have cm0: "cm example_clasher A = Some []"
    by (simp add: example_clasher_def)
  from add_collision_object_transform [OF st'] cm0
  obtain mesh mat where "cm st' A = Some [(guid unit_triangle, mesh, mat)]"
    and "mat = [[matrix_data unit_triangle ! 0, matrix_data unit_triangle ! 3, matrix_data unit_triangle ! 6, matrix_data unit_triangle ! 9],
                  [matrix_data unit_triangle ! 1, matrix_data unit_triangle ! 4, matrix_data unit_triangle ! 7, matrix_data unit_triangle ! 10],
                  [matrix_data unit_triangle ! 2, matrix_data unit_triangle ! 5, matrix_data unit_triangle ! 8, matrix_data unit_triangle ! 11],
                  [0, 0, 0, 1]]"
    by auto
  then have "cm st' A = Some [(''g1'', mesh, [[1, 0, 0, 5], [0, 1, 0, 6], [0, 0, 1, 7], [0, 0, 0, 1]])]"
    by (simp add: unit_triangle_def)
  with st' show ?thesis by blast
qed

section \<open>The loop over the contacts\<close>

lemma ebind_assoc: "ebind (ebind r k) h = ebind r (\<lambda>v. ebind (k v) h)"
  by (cases r) auto

lemma clash_contact_step:
  "clash_contact st c =
     ebind (clash_record_of st c) (\<lambda>r.
       if raw_penetration_depth c < tolerance st then Inr st
       else Inr (st\<lparr>clashes := AList.update (contact_key c) r (clashes st)\<rparr>))"
proof (cases "names c")
  case (Pair a_id b_id)
  then have sel: "fst (names c) = a_id" "snd (names c) = b_id" by simp_all
  show ?thesis
    unfolding clash_contact_def clash_record_of_def contact_key_def ebind_assoc sel Pair
    by (cases "raw_penetration_depth c < tolerance st") simp_all
qed

lemma clash_record_of_cong:
  "ifc s = ifc st \<Longrightarrow> clash_record_of s c = clash_record_of st c"
  by (simp add: clash_record_of_def the_ifc_def)

lemma clash_record_of_fields:
  "clash_record_of st c = Inr r \<Longrightarrow>
     a_global_id r = fst (names c) \<and> b_global_id r = snd (names c) \<and>
     penetration_depth r = raw_penetration_depth c"
  by (auto simp: clash_record_of_def ebind_Inr_iff)

lemma clash_contact_Inr:
  assumes "clash_contact st c = Inr st'"
  shows "\<exists>r. clash_record_of st c = Inr r \<and>
           st' = (if raw_penetration_depth c < tolerance st then st
                  else st\<lparr>clashes := AList.update (contact_key c) r (clashes st)\<rparr>)"
  using assms by (auto simp: clash_contact_step ebind_Inr_iff split: if_splits)

lemma clash_contact_frame:
  assumes "clash_contact st c = Inr st'"
  shows "ifc st' = ifc st" "tolerance st' = tolerance st"
  using clash_contact_Inr [OF assms] by (auto split: if_splits)

lemma clash_contacts_frame:
  "clash_contacts st cs = Inr st' \<Longrightarrow> ifc st' = ifc st \<and> tolerance st' = tolerance st"
proof (induction cs arbitrary: st)
  case Nil
  then show ?case by simp
next
  case (Cons c cs)
  then obtain s where s: "clash_contact st c = Inr s" and rest: "clash_contacts s cs = Inr st'"
    by (auto simp: ebind_Inr_iff)
  from Cons.IH [OF rest] clash_contact_frame [OF s] show ?case by simp
qed

lemma clash_contacts_append:
  "clash_contacts st (xs @ ys) = ebind (clash_contacts st xs) (\<lambda>s. clash_contacts s ys)"
  by (induction xs arbitrary: st) (simp_all add: ebind_assoc)

text \<open>What happens to the report at the position of one contact of a run.\<close>

lemma clash_contacts_split:
  assumes "clash_contacts st (pre @ c # post) = Inr st'"
  shows "\<exists>s1 s2 r. clash_contacts st pre = Inr s1 \<and> clash_contact s1 c = Inr s2 \<and>
           clash_contacts s2 post = Inr st' \<and> clash_record_of st c = Inr r \<and>
           s2 = (if raw_penetration_depth c < tolerance st then s1
                 else s1\<lparr>clashes := AList.update (contact_key c) r (clashes s1)\<rparr>)"
proof -
  from assms obtain s1 s2 where s1: "clash_contacts st pre = Inr s1"
    and s2: "clash_contact s1 c = Inr s2" and post: "clash_contacts s2 post = Inr st'"
    by (auto simp: clash_contacts_append ebind_Inr_iff)
  from clash_contacts_frame [OF s1] have fr: "ifc s1 = ifc st" "tolerance s1 = tolerance st"
    by simp_all
  from clash_contact_Inr [OF s2] fr s1 s2 post show ?thesis
    by (auto simp: clash_record_of_cong [OF fr(1)])
qed

lemma set_update_subset: "set (AList.update k v al) \<subseteq> insert (k, v) (set al)"
  by (induction al) auto

text \<open>Where the entries of the report come from.\<close>

lemma clash_contacts_entries:
  "clash_contacts st cs = Inr st' \<Longrightarrow> (k, r) \<in> set (clashes st') \<Longrightarrow>
     (k, r) \<in> set (clashes st) \<or>
     (\<exists>c \<in> set cs. \<not> raw_penetration_depth c < tolerance st \<and> k = contact_key c \<and>
        clash_record_of st c = Inr r)"
proof (induction cs arbitrary: st)
  case Nil
  then show ?case by simp
next
  case (Cons c cs)
  then obtain s where s: "clash_contact st c = Inr s" and rest: "clash_contacts s cs = Inr st'"
    by (auto simp: ebind_Inr_iff)
  note fr = clash_contact_frame [OF s]
  from clash_contact_Inr [OF s] obtain rc where rc: "clash_record_of st c = Inr rc"
    and s_eq: "s = (if raw_penetration_depth c < tolerance st then st
                  else st\<lparr>clashes := AList.update (contact_key c) rc (clashes st)\<rparr>)"
    by blast
  from Cons.IH [OF rest Cons.prems(2)]
  consider "(k, r) \<in> set (clashes s)"
    | "\<exists>d \<in> set cs. \<not> raw_penetration_depth d < tolerance st \<and> k = contact_key d \<and>
        clash_record_of st d = Inr r"
    by (auto simp: fr clash_record_of_cong [OF fr(1)])
  then show ?case
  proof cases
    case 1
    show ?thesis
    proof (cases "raw_penetration_depth c < tolerance st")
      case True
      with 1 s_eq show ?thesis by simp
    next
      case False
      with 1 s_eq have "(k, r) \<in> insert (contact_key c, rc) (set (clashes st))"
        using set_update_subset by fastforce
      with False rc show ?thesis by auto
    qed
  next
    case 2
    then show ?thesis by auto
  qed
qed

text \<open>Which keys the report has.\<close>

lemma clash_contacts_keys:
  "clash_contacts st cs = Inr st' \<Longrightarrow>
     fst ` set (clashes st') =
       fst ` set (clashes st) \<union> contact_key ` {c \<in> set cs. \<not> raw_penetration_depth c < tolerance st}"
proof (induction cs arbitrary: st)
  case Nil
  then show ?case by simp
next
  case (Cons c cs)
  then obtain s where s: "clash_contact st c = Inr s" and rest: "clash_contacts s cs = Inr st'"
    by (auto simp: ebind_Inr_iff)
  note fr = clash_contact_frame [OF s]
  from clash_contact_Inr [OF s] obtain rc where
    s_eq: "s = (if raw_penetration_depth c < tolerance st then st
                  else st\<lparr>clashes := AList.update (contact_key c) rc (clashes st)\<rparr>)"
    by blast
  have "fst ` set (clashes s) =
          fst ` set (clashes st) \<union> contact_key ` {d \<in> {c}. \<not> raw_penetration_depth d < tolerance st}"
    by (auto simp: s_eq dom_update)
  with Cons.IH [OF rest] show ?case
    by (auto simp: fr)
qed

lemma clash_contacts_distinct:
  "clash_contacts st cs = Inr st' \<Longrightarrow> distinct (map fst (clashes st)) \<Longrightarrow>
     distinct (map fst (clashes st'))"
proof (induction cs arbitrary: st)
  case Nil
  then show ?case by simp
next
  case (Cons c cs)
  then obtain s where s: "clash_contact st c = Inr s" and rest: "clash_contacts s cs = Inr st'"
    by (auto simp: ebind_Inr_iff)
  from clash_contact_Inr [OF s] Cons.prems(2) have "distinct (map fst (clashes s))"
    by (auto simp: distinct_update split: if_splits)
  with Cons.IH [OF rest] show ?case .
qed

text \<open>A key that no contact that passes the filter has keeps its entry.\<close>

lemma clash_contacts_untouched:
  "clash_contacts st cs = Inr st' \<Longrightarrow>
     \<forall>d \<in> set cs. contact_key d = k \<longrightarrow> raw_penetration_depth d < tolerance st \<Longrightarrow>
     map_of (clashes st') k = map_of (clashes st) k"
proof (induction cs arbitrary: st)
  case Nil
  then show ?case by simp
next
  case (Cons c cs)
  then obtain s where s: "clash_contact st c = Inr s" and rest: "clash_contacts s cs = Inr st'"
    by (auto simp: ebind_Inr_iff)
  note fr = clash_contact_frame [OF s]
  from clash_contact_Inr [OF s] Cons.prems(2)
  have "map_of (clashes s) k = map_of (clashes st) k"
    by (auto simp: update_conv' split: if_splits)
  moreover have "map_of (clashes st') k = map_of (clashes s) k"
    using Cons.IH [OF rest] Cons.prems(2) by (simp add: fr)
  ultimately show ?case by simp
qed

text \<open>The contact that is the last of its key to pass the filter is the one reported.\<close>

lemma clash_contacts_last:
  assumes run: "clash_contacts st (pre @ c # post) = Inr st'"
    and pass: "\<not> raw_penetration_depth c < tolerance st"
    and later: "\<forall>d \<in> set post. contact_key d = contact_key c \<longrightarrow> raw_penetration_depth d < tolerance st"
  shows "\<exists>r. clash_record_of st c = Inr r \<and> map_of (clashes st') (contact_key c) = Some r"
proof -
  from clash_contacts_split [OF run] pass obtain s1 s2 r where
    s1: "clash_contacts st pre = Inr s1" and s2: "clash_contact s1 c = Inr s2"
    and post: "clash_contacts s2 post = Inr st'" and r: "clash_record_of st c = Inr r"
    and s2_eq: "s2 = s1\<lparr>clashes := AList.update (contact_key c) r (clashes s1)\<rparr>"
    by auto
  have tol2: "tolerance s2 = tolerance st"
    using clash_contacts_frame [OF s1] clash_contact_frame [OF s2] by simp
  have "map_of (clashes st') (contact_key c) = map_of (clashes s2) (contact_key c)"
    using clash_contacts_untouched [OF post] later by (simp add: tol2)
  also have "\<dots> = Some r" by (simp add: s2_eq update_conv')
  finally show ?thesis using r by blast
qed

section \<open>The tolerance filter\<close>

lemma not_less_pyfloat:
  "\<not> d < Float t \<longleftrightarrow> Float t \<le> d \<or> d = NaN"
  by (cases d) auto

text \<open>
  C2. In a run of the loop over the contacts with the tolerance 0.01 of the detector and an
  empty report at the start: at the position of each contact, the report stays as it is
  when the contact's penetration depth is less than 0.01, and gets the contact's record
  under the contact's key otherwise, that is when the depth is at least 0.01 or is NaN. So
  the keys of the final report are the keys of the contacts whose depth is not less than
  0.01, and every record of the final report is the record of such a contact: its
  penetration depth is not less than 0.01, and is at least 0.01 unless it is NaN.
\<close>

theorem clash_contacts_tolerance:
  assumes run: "clash_contacts st cs = Inr st'"
    and tol: "tolerance st = Float (1 / 100)"
    and empty: "clashes st = []"
  shows "(\<forall>pre c post. cs = pre @ c # post \<longrightarrow>
            (\<exists>s1 s2 r. clash_contacts st pre = Inr s1 \<and> clash_contact s1 c = Inr s2 \<and>
               clash_contacts s2 post = Inr st' \<and> clash_record_of st c = Inr r \<and>
               penetration_depth r = raw_penetration_depth c \<and>
               (raw_penetration_depth c < Float (1 / 100) \<longrightarrow> s2 = s1) \<and>
               (Float (1 / 100) \<le> raw_penetration_depth c \<or> raw_penetration_depth c = NaN \<longrightarrow>
                  s2 = s1\<lparr>clashes := AList.update (contact_key c) r (clashes s1)\<rparr>))) \<and>
         fst ` set (clashes st') =
           contact_key ` {c \<in> set cs. Float (1 / 100) \<le> raw_penetration_depth c \<or>
                                     raw_penetration_depth c = NaN} \<and>
         (\<forall>(k, r) \<in> set (clashes st').
            \<not> penetration_depth r < Float (1 / 100) \<and>
            (penetration_depth r \<noteq> NaN \<longrightarrow> Float (1 / 100) \<le> penetration_depth r) \<and>
            (\<exists>c \<in> set cs. \<not> raw_penetration_depth c < Float (1 / 100) \<and> k = contact_key c \<and>
               clash_record_of st c = Inr r))"
proof (intro conjI allI impI)
  fix pre c post
  assume cs: "cs = pre @ c # post"
  from clash_contacts_split [OF run [unfolded cs]]
  obtain s1 s2 r where *: "clash_contacts st pre = Inr s1" "clash_contact s1 c = Inr s2"
    "clash_contacts s2 post = Inr st'" "clash_record_of st c = Inr r"
    "s2 = (if raw_penetration_depth c < tolerance st then s1
           else s1\<lparr>clashes := AList.update (contact_key c) r (clashes s1)\<rparr>)"
    by blast
  from clash_record_of_fields [OF *(4)] have d: "penetration_depth r = raw_penetration_depth c"
    by simp
  have lt: "s2 = s1" if "raw_penetration_depth c < Float (1 / 100)"
    using that *(5) by (simp add: tol)
  have ge: "s2 = s1\<lparr>clashes := AList.update (contact_key c) r (clashes s1)\<rparr>"
    if "Float (1 / 100) \<le> raw_penetration_depth c \<or> raw_penetration_depth c = NaN"
  proof -
    from that have "\<not> raw_penetration_depth c < Float (1 / 100)"
      by (simp only: not_less_pyfloat)
    with *(5) show ?thesis by (simp add: tol)
  qed
  from *(1-4) d lt ge
  show "\<exists>s1 s2 r. clash_contacts st pre = Inr s1 \<and> clash_contact s1 c = Inr s2 \<and>
               clash_contacts s2 post = Inr st' \<and> clash_record_of st c = Inr r \<and>
               penetration_depth r = raw_penetration_depth c \<and>
               (raw_penetration_depth c < Float (1 / 100) \<longrightarrow> s2 = s1) \<and>
               (Float (1 / 100) \<le> raw_penetration_depth c \<or> raw_penetration_depth c = NaN \<longrightarrow>
                  s2 = s1\<lparr>clashes := AList.update (contact_key c) r (clashes s1)\<rparr>)"
    by blast
next
  show "fst ` set (clashes st') =
           contact_key ` {c \<in> set cs. Float (1 / 100) \<le> raw_penetration_depth c \<or>
                                     raw_penetration_depth c = NaN}"
    using clash_contacts_keys [OF run] by (simp add: tol empty not_less_pyfloat)
next
  show "\<forall>(k, r) \<in> set (clashes st').
            \<not> penetration_depth r < Float (1 / 100) \<and>
            (penetration_depth r \<noteq> NaN \<longrightarrow> Float (1 / 100) \<le> penetration_depth r) \<and>
            (\<exists>c \<in> set cs. \<not> raw_penetration_depth c < Float (1 / 100) \<and> k = contact_key c \<and>
               clash_record_of st c = Inr r)"
  proof (clarify, intro conjI impI)
    fix k r
    assume "(k, r) \<in> set (clashes st')"
    from clash_contacts_entries [OF run this]
    obtain c where c: "c \<in> set cs" "\<not> raw_penetration_depth c < Float (1 / 100)" "k = contact_key c"
      "clash_record_of st c = Inr r"
      by (auto simp: tol empty)
    from c show "\<exists>c \<in> set cs. \<not> raw_penetration_depth c < Float (1 / 100) \<and> k = contact_key c \<and>
               clash_record_of st c = Inr r"
      by blast
    from clash_record_of_fields [OF c(4)] c(2) show n: "\<not> penetration_depth r < Float (1 / 100)"
      by simp
    assume "penetration_depth r \<noteq> NaN"
    with n show "Float (1 / 100) \<le> penetration_depth r"
      by (simp add: not_less_pyfloat)
  qed
qed

lemma example_clasher_simps:
  "ifc example_clasher = (\<lambda>ab. Some example_file)" "tolerance example_clasher = Float (1 / 100)"
  "clashes example_clasher = []" "cm example_clasher = (\<lambda>ab. Some [])"
  by (simp_all add: example_clasher_def IfcClasher_def)

lemma example_by_guid:
  "by_guid example_file ''g1'' = Inr (example_element ''IfcWall'' ''g1'' None [])"
  "by_guid example_file ''g2'' = Inr (example_element ''IfcSpace'' ''g2'' None [])"
  "by_guid example_file ''site'' = Inr (example_element ''IfcSite'' ''site'' (Some 10) [[102]])"
  by (simp_all add: by_guid_def example_file_def example_element_def)

lemma example_record:
  "a \<in> {''g1'', ''g2'', ''site''} \<Longrightarrow> b \<in> {''g1'', ''g2'', ''site''} \<Longrightarrow>
   ifc s = (\<lambda>ab. Some example_file) \<Longrightarrow>
   \<exists>r. clash_record_of s (example_contact a b d) = Inr r"
  by (auto simp: clash_record_of_def the_ifc_def example_contact_def example_by_guid)

lemma example_run:
  "\<exists>st'. clash_contacts example_clasher
      [example_contact ''g1'' ''g2'' (99 / 10000), example_contact ''g1'' ''site'' (1 / 100),
       example_contact ''g2'' ''g1'' (2 / 100)] = Inr st'"
  by (simp add: clash_contact_def example_contact_def example_clasher_simps the_ifc_def
      example_by_guid)

theorem clash_contacts_tolerance_witness:
  "\<exists>st'. clash_contacts example_clasher
      [example_contact ''g1'' ''g2'' (99 / 10000), example_contact ''g1'' ''site'' (1 / 100),
       example_contact ''g2'' ''g1'' (2 / 100)] = Inr st' \<and>
     fst ` set (clashes st') = {''g1-site'', ''g2-g1''} \<and>
     list_all (\<lambda>p. \<not> penetration_depth (snd p) < Float (1 / 100)) (clashes st')"
proof -
  from example_run obtain st' where run: "clash_contacts example_clasher
      [example_contact ''g1'' ''g2'' (99 / 10000), example_contact ''g1'' ''site'' (1 / 100),
       example_contact ''g2'' ''g1'' (2 / 100)] = Inr st'" ..
  let ?cs = "[example_contact ''g1'' ''g2'' (99 / 10000), example_contact ''g1'' ''site'' (1 / 100),
       example_contact ''g2'' ''g1'' (2 / 100)]"
  let ?keep = "\<lambda>c. Float (1 / 100) \<le> raw_penetration_depth c \<or> raw_penetration_depth c = NaN"
  note inst = clash_contacts_tolerance [OF run example_clasher_simps(2,3)]
  from inst have "fst ` set (clashes st') = contact_key ` {c \<in> set ?cs. ?keep c}"
    by (rule conjunct1 [OF conjunct2])
  also have "\<dots> = set (map contact_key (filter ?keep ?cs))"
    by (simp only: set_map set_filter)
  also have "\<dots> = {''g1-site'', ''g2-g1''}"
    by (simp add: contact_key_def clash_key_def example_contact_def)
  finally have "fst ` set (clashes st') = {''g1-site'', ''g2-g1''}" .
  moreover from inst have "\<forall>(k, r) \<in> set (clashes st').
            \<not> penetration_depth r < Float (1 / 100) \<and>
            (penetration_depth r \<noteq> NaN \<longrightarrow> Float (1 / 100) \<le> penetration_depth r) \<and>
            (\<exists>c \<in> set ?cs. \<not> raw_penetration_depth c < Float (1 / 100) \<and> k = contact_key c \<and>
               clash_record_of example_clasher c = Inr r)"
    by (rule conjunct2 [OF conjunct2])
  then have "list_all (\<lambda>p. \<not> penetration_depth (snd p) < Float (1 / 100)) (clashes st')"
    unfolding list_all_iff split_beta by blast
  ultimately show ?thesis using run by blast
qed

text \<open>
  A contact whose depth is NaN passes the filter, and its record is in the report with a
  depth that is not at least 0.01.
\<close>

theorem clash_contacts_nan_counterexample:
  "clash_contacts example_clasher [(example_contact ''g1'' ''g2'' 0)\<lparr>raw_penetration_depth := NaN\<rparr>] =
     Inr (example_clasher\<lparr>clashes :=
       [(''g1-g2'', \<lparr>a_global_id = ''g1'', b_global_id = ''g2'',
                     a_ifc_class = ''IfcWall'', b_ifc_class = ''IfcSpace'',
                     a_name = Some ''g1'', b_name = Some ''g2'',
                     normal = [0, 0, 1], position = [1, 2, 3], penetration_depth = NaN\<rparr>)]\<rparr>) \<and>
   \<not> Float (1 / 100) \<le> NaN \<and> \<not> NaN < Float (1 / 100)"
  by (simp add: clash_contact_def example_contact_def example_clasher_simps the_ifc_def
      example_by_guid clash_key_def example_element_def)

section \<open>One record for each key\<close>

lemma clash_contacts_keyed:
  assumes run: "clash_contacts st cs = Inr st'" and empty: "clashes st = []"
    and mem: "(k, r) \<in> set (clashes st')"
  shows "k = clash_key (a_global_id r) (b_global_id r)"
proof -
  from clash_contacts_entries [OF run mem] empty
  obtain c where "k = contact_key c" "clash_record_of st c = Inr r" by auto
  with clash_record_of_fields [of st c r] show ?thesis
    by (simp add: contact_key_def)
qed

lemma filter_snd_empty:
  "\<forall>p \<in> set xs. \<not> P (snd p) \<Longrightarrow> filter P (map snd xs) = []"
  by (induction xs) auto

lemma one_record_per_pair:
  assumes "distinct (map fst xs)"
    and "\<forall>p \<in> set xs. fst p = clash_key (a_global_id (snd p)) (b_global_id (snd p))"
  shows "length (filter (\<lambda>r. a_global_id r = a \<and> b_global_id r = b) (map snd xs)) \<le> 1"
  using assms
proof (induction xs)
  case Nil
  then show ?case by simp
next
  case (Cons p xs)
  show ?case
  proof (cases "a_global_id (snd p) = a \<and> b_global_id (snd p) = b")
    case True
    with Cons.prems(2) have key: "fst p = clash_key a b" by simp
    have "\<forall>q \<in> set xs. \<not> (a_global_id (snd q) = a \<and> b_global_id (snd q) = b)"
    proof
      fix q assume q: "q \<in> set xs"
      show "\<not> (a_global_id (snd q) = a \<and> b_global_id (snd q) = b)"
      proof
        assume "a_global_id (snd q) = a \<and> b_global_id (snd q) = b"
        with Cons.prems(2) q have "fst q = clash_key a b" by simp
        with key q have "fst p \<in> fst ` set xs" by force
        with Cons.prems(1) show False by simp
      qed
    qed
    then have "filter (\<lambda>r. a_global_id r = a \<and> b_global_id r = b) (map snd xs) = []"
      by (rule filter_snd_empty)
    with True show ?thesis by simp
  next
    case False
    from Cons.prems have "distinct (map fst xs)"
      and "\<forall>q \<in> set xs. fst q = clash_key (a_global_id (snd q)) (b_global_id (snd q))"
      by simp_all
    from Cons.IH [OF this] False show ?thesis by auto
  qed
qed

text \<open>
  C3. After a run of the loop over the contacts that starts from an empty report, no two
  entries of the report have the same key, and for each ordered pair of labels at most
  one record of the report carries that pair. A contact that passes the tolerance filter
  replaces whatever was filed under its key before it; it is the record of the final
  report under that key when no later contact with the same key passes the filter.
\<close>

theorem clash_contacts_one_record_per_key:
  assumes run: "clash_contacts st cs = Inr st'" and empty: "clashes st = []"
  shows "distinct (map fst (clashes st')) \<and>
         (\<forall>a b. length (filter (\<lambda>r. a_global_id r = a \<and> b_global_id r = b)
                           (map snd (clashes st'))) \<le> 1) \<and>
         (\<forall>pre c post. cs = pre @ c # post \<longrightarrow> \<not> raw_penetration_depth c < tolerance st \<longrightarrow>
            (\<exists>s2 r. clash_contacts st (pre @ [c]) = Inr s2 \<and> clash_record_of st c = Inr r \<and>
               map_of (clashes s2) (contact_key c) = Some r \<and>
               ((\<forall>d \<in> set post. contact_key d = contact_key c \<longrightarrow>
                     raw_penetration_depth d < tolerance st) \<longrightarrow>
                  map_of (clashes st') (contact_key c) = Some r)))"
proof (intro conjI allI impI)
  show d: "distinct (map fst (clashes st'))"
    using clash_contacts_distinct [OF run] empty by simp
  fix a b
  have "\<forall>p \<in> set (clashes st'). fst p = clash_key (a_global_id (snd p)) (b_global_id (snd p))"
    using clash_contacts_keyed [OF run empty] by auto
  with d show "length (filter (\<lambda>r. a_global_id r = a \<and> b_global_id r = b)
                           (map snd (clashes st'))) \<le> 1"
    by (rule one_record_per_pair)
next
  fix pre c post
  assume cs: "cs = pre @ c # post" and pass: "\<not> raw_penetration_depth c < tolerance st"
  from clash_contacts_split [OF run [unfolded cs]] pass
  obtain s1 s2 r where s1: "clash_contacts st pre = Inr s1" and s2: "clash_contact s1 c = Inr s2"
    and r: "clash_record_of st c = Inr r"
    and s2_eq: "s2 = s1\<lparr>clashes := AList.update (contact_key c) r (clashes s1)\<rparr>"
    by auto
  have a: "clash_contacts st (pre @ [c]) = Inr s2"
    by (simp add: clash_contacts_append s1 s2)
  have b: "map_of (clashes s2) (contact_key c) = Some r"
    by (simp add: s2_eq update_conv')
  have "map_of (clashes st') (contact_key c) = Some r"
    if "\<forall>d \<in> set post. contact_key d = contact_key c \<longrightarrow> raw_penetration_depth d < tolerance st"
    using clash_contacts_last [OF run [unfolded cs] pass that] r by simp
  with a b r show "\<exists>s2 r. clash_contacts st (pre @ [c]) = Inr s2 \<and> clash_record_of st c = Inr r \<and>
               map_of (clashes s2) (contact_key c) = Some r \<and>
               ((\<forall>d \<in> set post. contact_key d = contact_key c \<longrightarrow>
                     raw_penetration_depth d < tolerance st) \<longrightarrow>
                  map_of (clashes st') (contact_key c) = Some r)"
    by blast
qed

lemma example_run_same_pair:
  "\<exists>st'. clash_contacts example_clasher
      [example_contact ''g1'' ''g2'' 2, example_contact ''g1'' ''g2'' 5] = Inr st'"
  by (simp add: clash_contact_def example_contact_def example_clasher_simps the_ifc_def
      example_by_guid)

theorem clash_contacts_one_record_per_key_witness:
  "\<exists>st'. clash_contacts example_clasher
      [example_contact ''g1'' ''g2'' 2, example_contact ''g1'' ''g2'' 5] = Inr st' \<and>
     distinct (map fst (clashes st')) \<and>
     length (filter (\<lambda>r. a_global_id r = ''g1'' \<and> b_global_id r = ''g2'') (map snd (clashes st'))) \<le> 1 \<and>
     (\<exists>r. map_of (clashes st') ''g1-g2'' = Some r \<and> penetration_depth r = Float 5)"
proof -
  let ?c1 = "example_contact ''g1'' ''g2'' 2" and ?c2 = "example_contact ''g1'' ''g2'' 5"
  from example_run_same_pair obtain st' where run: "clash_contacts example_clasher [?c1, ?c2] = Inr st'" ..
  note inst = clash_contacts_one_record_per_key [OF run example_clasher_simps(3)]
  from inst have d: "distinct (map fst (clashes st'))" by (rule conjunct1)
  from inst have l: "length (filter (\<lambda>r. a_global_id r = ''g1'' \<and> b_global_id r = ''g2'')
      (map snd (clashes st'))) \<le> 1"
    by blast
  have pass: "\<not> raw_penetration_depth ?c2 < tolerance example_clasher"
    by (simp add: example_contact_def example_clasher_simps)
  from inst have "\<forall>pre c post. [?c1, ?c2] = pre @ c # post \<longrightarrow>
      \<not> raw_penetration_depth c < tolerance example_clasher \<longrightarrow>
            (\<exists>s2 r. clash_contacts example_clasher (pre @ [c]) = Inr s2 \<and>
               clash_record_of example_clasher c = Inr r \<and>
               map_of (clashes s2) (contact_key c) = Some r \<and>
               ((\<forall>d \<in> set post. contact_key d = contact_key c \<longrightarrow>
                     raw_penetration_depth d < tolerance example_clasher) \<longrightarrow>
                  map_of (clashes st') (contact_key c) = Some r))"
    by (rule conjunct2 [OF conjunct2])
  from this [rule_format, of "[?c1]" ?c2 "[]"] pass
  obtain r where r: "clash_record_of example_clasher ?c2 = Inr r"
    and m: "map_of (clashes st') (contact_key ?c2) = Some r"
    by auto
  have k: "contact_key ?c2 = ''g1-g2''"
    by (simp add: contact_key_def clash_key_def example_contact_def)
  from clash_record_of_fields [OF r] have "penetration_depth r = Float 5"
    by (simp add: example_contact_def)
  with m k d l run show ?thesis by auto
qed

section \<open>Keys and label pairs\<close>

lemma clash_key_inject:
  assumes "CHR ''-'' \<notin> set a" "CHR ''-'' \<notin> set b" "clash_key a b = clash_key a' b'"
  shows "a = a' \<and> b = b'"
  using assms append_Cons_eq_iff [of "CHR ''-''" a b a' b']
  by (simp add: clash_key_def)

text \<open>
  C9. The key of a contact is its A-label, the character \<open>-\<close> and its B-label. For labels
  that do not contain \<open>-\<close>, equal keys mean equal ordered pairs, and after a run from an
  empty report over contacts with such labels, the entry under the key of a contact that
  passed the filter carries that contact's own pair. With labels that contain \<open>-\<close> there
  are two contacts with different pairs and one key, and the record of the second
  replaces the record of the first.
\<close>

theorem clash_key_pairs:
  "(\<forall>a b a' b'. CHR ''-'' \<notin> set a \<and> CHR ''-'' \<notin> set b \<and> CHR ''-'' \<notin> set a' \<and> CHR ''-'' \<notin> set b' \<longrightarrow>
      clash_key a b = a @ ''-'' @ b \<and> (clash_key a b = clash_key a' b' \<longrightarrow> (a, b) = (a', b'))) \<and>
   (\<forall>st cs st'. clash_contacts st cs = Inr st' \<and> clashes st = [] \<and>
      (\<forall>c \<in> set cs. CHR ''-'' \<notin> set (fst (names c)) \<and> CHR ''-'' \<notin> set (snd (names c))) \<longrightarrow>
      (\<forall>c \<in> set cs. \<not> raw_penetration_depth c < tolerance st \<longrightarrow>
         (\<exists>r. map_of (clashes st') (contact_key c) = Some r \<and>
               (a_global_id r, b_global_id r) = names c))) \<and>
   (\<exists>st c1 c2 st' r. names c1 \<noteq> names c2 \<and> contact_key c1 = contact_key c2 \<and>
      \<not> raw_penetration_depth c1 < tolerance st \<and> \<not> raw_penetration_depth c2 < tolerance st \<and>
      clashes st = [] \<and> clash_contacts st [c1, c2] = Inr st' \<and>
      clashes st' = [(contact_key c1, r)] \<and> (a_global_id r, b_global_id r) = names c2)"
proof (intro conjI allI impI ballI)
  fix a b a' b' :: string
  assume h: "CHR ''-'' \<notin> set a \<and> CHR ''-'' \<notin> set b \<and> CHR ''-'' \<notin> set a' \<and> CHR ''-'' \<notin> set b'"
  show "clash_key a b = a @ ''-'' @ b" by (simp add: clash_key_def)
  assume "clash_key a b = clash_key a' b'"
  with h clash_key_inject [of a b a' b'] show "(a, b) = (a', b')" by simp
next
  fix st cs st' c
  assume h: "clash_contacts st cs = Inr st' \<and> clashes st = [] \<and>
      (\<forall>c \<in> set cs. CHR ''-'' \<notin> set (fst (names c)) \<and> CHR ''-'' \<notin> set (snd (names c)))"
    and c: "c \<in> set cs" and pass: "\<not> raw_penetration_depth c < tolerance st"
  from h have run: "clash_contacts st cs = Inr st'" by simp
  let ?P = "\<lambda>d. contact_key d = contact_key c \<and> \<not> raw_penetration_depth d < tolerance st"
  from c pass have "\<exists>d \<in> set cs. ?P d" by blast
  from split_list_last_prop [OF this]
  obtain pre d post where cs: "cs = pre @ d # post" and d: "?P d"
    and post: "\<forall>e \<in> set post. \<not> ?P e"
    by blast
  from post d have later: "\<forall>e \<in> set post. contact_key e = contact_key d \<longrightarrow>
      raw_penetration_depth e < tolerance st"
    by auto
  from clash_contacts_last [OF run [unfolded cs] _ later] d
  obtain r where r: "clash_record_of st d = Inr r"
    and m: "map_of (clashes st') (contact_key c) = Some r"
    by auto
  from cs have "d \<in> set cs" by simp
  with h c have nd: "CHR ''-'' \<notin> set (fst (names d))" "CHR ''-'' \<notin> set (snd (names d))"
    by auto
  from d have "clash_key (fst (names d)) (snd (names d)) = clash_key (fst (names c)) (snd (names c))"
    by (simp add: contact_key_def)
  from clash_key_inject [OF nd this] have "names d = names c"
    by (simp add: prod_eq_iff)
  with clash_record_of_fields [OF r] have "(a_global_id r, b_global_id r) = names c"
    by (simp add: prod_eq_iff)
  with m show "\<exists>r. map_of (clashes st') (contact_key c) = Some r \<and>
               (a_global_id r, b_global_id r) = names c"
    by blast
next
  let ?c1 = "example_contact ''a-b'' ''c'' 2" and ?c2 = "example_contact ''a'' ''b-c'' 3"
  let ?r = "\<lparr>a_global_id = ''a'', b_global_id = ''b-c'',
             a_ifc_class = ''IfcSlab'', b_ifc_class = ''IfcSlab'',
             a_name = Some ''a'', b_name = Some ''b-c'',
             normal = [0, 0, 1], position = [1, 2, 3], penetration_depth = Float 3\<rparr>"
  have g: "by_guid dash_file ''a-b'' = Inr (example_element ''IfcWall'' ''a-b'' None [])"
    "by_guid dash_file ''c'' = Inr (example_element ''IfcWall'' ''c'' None [])"
    "by_guid dash_file ''a'' = Inr (example_element ''IfcSlab'' ''a'' None [])"
    "by_guid dash_file ''b-c'' = Inr (example_element ''IfcSlab'' ''b-c'' None [])"
    by (simp_all add: by_guid_def dash_file_def example_element_def)
  have s: "ifc dash_clasher = (\<lambda>ab. Some dash_file)" "tolerance dash_clasher = Float (1 / 100)"
    "clashes dash_clasher = []"
    by (simp_all add: dash_clasher_def IfcClasher_def)
  have k: "contact_key ?c1 = ''a-b-c''" "contact_key ?c2 = ''a-b-c''"
    by (simp_all add: contact_key_def clash_key_def example_contact_def)
  have run: "clash_contacts dash_clasher [?c1, ?c2] = Inr (dash_clasher\<lparr>clashes := [(''a-b-c'', ?r)]\<rparr>)"
    by (simp add: clash_contact_def example_contact_def s the_ifc_def g clash_key_def
        example_element_def)
  have n: "names ?c1 \<noteq> names ?c2" by (simp add: example_contact_def)
  have p: "\<not> raw_penetration_depth ?c1 < tolerance dash_clasher"
    "\<not> raw_penetration_depth ?c2 < tolerance dash_clasher"
    by (simp_all add: example_contact_def s)
  have e: "(a_global_id ?r, b_global_id ?r) = names ?c2" by (simp add: example_contact_def)
  have f: "clashes (dash_clasher\<lparr>clashes := [(''a-b-c'', ?r)]\<rparr>) = [(contact_key ?c1, ?r)]"
    by (simp add: k)
  have kk: "contact_key ?c1 = contact_key ?c2" by (simp only: k)
  from n kk p s(3) run f e
  show "\<exists>st c1 c2 st' r. names c1 \<noteq> names c2 \<and> contact_key c1 = contact_key c2 \<and>
      \<not> raw_penetration_depth c1 < tolerance st \<and> \<not> raw_penetration_depth c2 < tolerance st \<and>
      clashes st = [] \<and> clash_contacts st [c1, c2] = Inr st' \<and>
      clashes st' = [(contact_key c1, r)] \<and> (a_global_id r, b_global_id r) = names c2"
    by blast
qed

lemma example_run_two_pairs:
  "\<exists>st'. clash_contacts example_clasher
      [example_contact ''g1'' ''g2'' 2, example_contact ''g2'' ''g1'' 5] = Inr st'"
  by (simp add: clash_contact_def example_contact_def example_clasher_simps the_ifc_def
      example_by_guid)

theorem clash_key_pairs_witness:
  "\<exists>st'. clash_contacts example_clasher
      [example_contact ''g1'' ''g2'' 2, example_contact ''g2'' ''g1'' 5] = Inr st' \<and>
     (\<exists>r. map_of (clashes st') ''g1-g2'' = Some r \<and> (a_global_id r, b_global_id r) = (''g1'', ''g2'')) \<and>
     (\<exists>r. map_of (clashes st') ''g2-g1'' = Some r \<and> (a_global_id r, b_global_id r) = (''g2'', ''g1'')) \<and>
     clash_key ''g1'' ''g2'' \<noteq> clash_key ''g2'' ''g1''"
proof -
  let ?c1 = "example_contact ''g1'' ''g2'' 2" and ?c2 = "example_contact ''g2'' ''g1'' 5"
  from example_run_two_pairs obtain st' where run: "clash_contacts example_clasher [?c1, ?c2] = Inr st'" ..
  have nodash: "\<forall>c \<in> set [?c1, ?c2]. CHR ''-'' \<notin> set (fst (names c)) \<and> CHR ''-'' \<notin> set (snd (names c))"
    by (simp add: example_contact_def)
  have pass: "\<not> raw_penetration_depth ?c1 < tolerance example_clasher"
    "\<not> raw_penetration_depth ?c2 < tolerance example_clasher"
    by (simp_all add: example_contact_def example_clasher_simps)
  have k: "contact_key ?c1 = ''g1-g2''" "contact_key ?c2 = ''g2-g1''"
    "names ?c1 = (''g1'', ''g2'')" "names ?c2 = (''g2'', ''g1'')"
    by (simp_all add: contact_key_def clash_key_def example_contact_def)
  from clash_key_pairs have rep: "\<forall>st cs st'. clash_contacts st cs = Inr st' \<and> clashes st = [] \<and>
      (\<forall>c \<in> set cs. CHR ''-'' \<notin> set (fst (names c)) \<and> CHR ''-'' \<notin> set (snd (names c))) \<longrightarrow>
      (\<forall>c \<in> set cs. \<not> raw_penetration_depth c < tolerance st \<longrightarrow>
         (\<exists>r. map_of (clashes st') (contact_key c) = Some r \<and>
               (a_global_id r, b_global_id r) = names c))"
    by (rule conjunct1 [OF conjunct2])
  from rep [rule_format, of example_clasher "[?c1, ?c2]" st' ?c1] run nodash pass(1)
  have a: "\<exists>r. map_of (clashes st') ''g1-g2'' = Some r \<and> (a_global_id r, b_global_id r) = (''g1'', ''g2'')"
    by (simp add: example_clasher_simps k)
  from rep [rule_format, of example_clasher "[?c1, ?c2]" st' ?c2] run nodash pass(2)
  have b: "\<exists>r. map_of (clashes st') ''g2-g1'' = Some r \<and> (a_global_id r, b_global_id r) = (''g2'', ''g1'')"
    by (simp add: example_clasher_simps k)
  have c: "clash_key ''g1'' ''g2'' \<noteq> clash_key ''g2'' ''g1''"
    by (simp add: clash_key_def)
  from run a b c show ?thesis by blast
qed

section \<open>The mesh cache\<close>

lemma add_collision_loop_add_each:
  "add_collision_loop ab st cur rest = add_each ab st (cur # rest)"
proof (induction rest arbitrary: st cur)
  case Nil
  show ?case by (cases "add_collision_object ab st cur") simp_all
next
  case (Cons nxt rest)
  show ?case
    by (cases "add_collision_object ab st cur") (simp_all add: Cons.IH)
qed

text \<open>What adding one shape does to the cache, to the record of the calls and to the scene.\<close>

lemma add_collision_object_effect:
  assumes "add_collision_object ab st (Some shape) = Inr st'"
  shows "\<exists>mesh mat objs.
           meshes st' ab (''mesh-'' @ geometry_id shape) = Some mesh \<and>
           (case meshes st ab (''mesh-'' @ geometry_id shape) of
              Some cached \<Rightarrow> mesh = cached \<and> create_mesh_calls st' = create_mesh_calls st
            | None \<Rightarrow> create_mesh shape = Inr mesh \<and>
                create_mesh_calls st' = create_mesh_calls st @ [(ab, geometry_id shape)]) \<and>
           (\<forall>k. k \<noteq> ''mesh-'' @ geometry_id shape \<longrightarrow> meshes st' ab k = meshes st ab k) \<and>
           cm st ab = Some objs \<and> cm st' ab = Some (objs @ [(guid shape, mesh, mat)])"
proof -
  from add_collision_object_SomeD [OF assms]
  obtain mesh st1 mat objs where
    st1: "case meshes st ab (''mesh-'' @ geometry_id shape) of
              Some cached \<Rightarrow> mesh = cached \<and> st1 = st
            | None \<Rightarrow> create_mesh shape = Inr mesh \<and>
                st1 = st\<lparr>meshes := (meshes st)(ab := (meshes st ab)(''mesh-'' @ geometry_id shape \<mapsto> mesh)),
                         create_mesh_calls := create_mesh_calls st @ [(ab, geometry_id shape)]\<rparr>"
    and objs: "the_cm st1 ab = Inr objs"
    and st': "st' = st1\<lparr>cm := (cm st1)(ab := Some (objs @ [(guid shape, mesh, mat)]))\<rparr>"
    by blast
  show ?thesis
  proof (cases "meshes st ab (''mesh-'' @ geometry_id shape)")
    case None
    with st1 objs st' show ?thesis
      by (auto simp: the_cm_def split: option.splits)
  next
    case (Some cached)
    with st1 objs st' show ?thesis
      by (auto simp: the_cm_def split: option.splits)
  qed
qed

lemma add_collision_object_keeps:
  assumes "add_collision_object ab st x = Inr st'" and "meshes st ab k = Some m"
  shows "meshes st' ab k = Some m"
proof (cases x)
  case None
  with assms show ?thesis by (simp add: add_collision_object_def)
next
  case (Some shape)
  from add_collision_object_effect [OF assms(1) [unfolded Some]] assms(2)
  show ?thesis
    by (cases "k = ''mesh-'' @ geometry_id shape") auto
qed

lemma add_each_keeps:
  "add_each ab st xs = Inr st' \<Longrightarrow> meshes st ab k = Some m \<Longrightarrow> meshes st' ab k = Some m"
proof (induction xs arbitrary: st)
  case Nil
  then show ?case by simp
next
  case (Cons x xs)
  then obtain s where s: "add_collision_object ab st x = Inr s" and rest: "add_each ab s xs = Inr st'"
    by (auto simp: ebind_Inr_iff)
  from Cons.IH [OF rest add_collision_object_keeps [OF s Cons.prems(2)]] show ?case .
qed

text \<open>Once a geometry id is in the cache, no further mesh is built for it.\<close>

lemma add_each_cached_calls:
  "add_each ab st xs = Inr st' \<Longrightarrow> meshes st ab (''mesh-'' @ g) = Some m \<Longrightarrow>
     count_list (create_mesh_calls st') (ab, g) = count_list (create_mesh_calls st) (ab, g)"
proof (induction xs arbitrary: st)
  case Nil
  then show ?case by simp
next
  case (Cons x xs)
  then obtain s where s: "add_collision_object ab st x = Inr s" and rest: "add_each ab s xs = Inr st'"
    by (auto simp: ebind_Inr_iff)
  have "count_list (create_mesh_calls s) (ab, g) = count_list (create_mesh_calls st) (ab, g)"
  proof (cases x)
    case None
    with s show ?thesis by (simp add: add_collision_object_def)
  next
    case (Some shape)
    from add_collision_object_effect [OF s [unfolded Some]] Cons.prems(2)
    show ?thesis
      by (cases "geometry_id shape = g") (auto split: option.splits)
  qed
  with Cons.IH [OF rest add_collision_object_keeps [OF s Cons.prems(2)]] show ?case by simp
qed

text \<open>A geometry id that is not in the cache is built at its first shape, and only there.\<close>

lemma add_each_first_build:
  "add_each ab st xs = Inr st' \<Longrightarrow> meshes st ab (''mesh-'' @ g) = None \<Longrightarrow>
   find (\<lambda>s. geometry_id s = g) (present xs) = Some s0 \<Longrightarrow>
     \<exists>m. create_mesh s0 = Inr m \<and> meshes st' ab (''mesh-'' @ g) = Some m \<and>
       count_list (create_mesh_calls st') (ab, g) = count_list (create_mesh_calls st) (ab, g) + 1"
proof (induction xs arbitrary: st)
  case Nil
  then show ?case by simp
next
  case (Cons x xs)
  then obtain s where s: "add_collision_object ab st x = Inr s" and rest: "add_each ab s xs = Inr st'"
    by (auto simp: ebind_Inr_iff)
  show ?case
  proof (cases x)
    case None
    with s have "s = st" by (simp add: add_collision_object_def)
    with Cons.IH [OF rest] Cons.prems None show ?thesis by simp
  next
    case (Some shape)
    note eff = add_collision_object_effect [OF s [unfolded Some]]
    show ?thesis
    proof (cases "geometry_id shape = g")
      case True
      with Cons.prems(3) Some have s0: "s0 = shape" by simp
      from eff True Cons.prems(2) obtain m where m: "create_mesh shape = Inr m"
        "meshes s ab (''mesh-'' @ g) = Some m"
        "create_mesh_calls s = create_mesh_calls st @ [(ab, g)]"
        by auto
      from add_each_keeps [OF rest m(2)] add_each_cached_calls [OF rest m(2)] m s0
      show ?thesis by simp
    next
      case False
      with eff Cons.prems(2) have fresh: "meshes s ab (''mesh-'' @ g) = None"
        by auto
      from eff False have "count_list (create_mesh_calls s) (ab, g) = count_list (create_mesh_calls st) (ab, g)"
        by (auto split: option.splits)
      moreover from Cons.prems(3) Some False
      have "find (\<lambda>s. geometry_id s = g) (present xs) = Some s0" by simp
      ultimately show ?thesis using Cons.IH [OF rest fresh] by simp
    qed
  qed
qed

text \<open>Every object added to the scene carries the mesh the cache holds for its geometry id.\<close>

lemma add_each_scene:
  "add_each ab st xs = Inr st' \<Longrightarrow> cm st ab = Some objs0 \<Longrightarrow>
     \<exists>new. cm st' ab = Some (objs0 @ new) \<and> length new = length (present xs) \<and>
       (\<forall>i < length new. fst (new ! i) = guid (present xs ! i) \<and>
          meshes st' ab (''mesh-'' @ geometry_id (present xs ! i)) = Some (fst (snd (new ! i))))"
proof (induction xs arbitrary: st objs0)
  case Nil
  then show ?case by simp
next
  case (Cons x xs)
  then obtain s where s: "add_collision_object ab st x = Inr s" and rest: "add_each ab s xs = Inr st'"
    by (auto simp: ebind_Inr_iff)
  show ?case
  proof (cases x)
    case None
    with s have "s = st" by (simp add: add_collision_object_def)
    with Cons.IH [OF rest] Cons.prems(2) None show ?thesis by simp
  next
    case (Some shape)
    from add_collision_object_effect [OF s [unfolded Some]] Cons.prems(2)
    obtain mesh mat where cached: "meshes s ab (''mesh-'' @ geometry_id shape) = Some mesh"
      and scene: "cm s ab = Some (objs0 @ [(guid shape, mesh, mat)])"
      by auto
    from Cons.IH [OF rest scene] obtain new where
      new: "cm st' ab = Some ((objs0 @ [(guid shape, mesh, mat)]) @ new)"
        "length new = length (present xs)"
        "\<forall>i < length new. fst (new ! i) = guid (present xs ! i) \<and>
          meshes st' ab (''mesh-'' @ geometry_id (present xs ! i)) = Some (fst (snd (new ! i)))"
      by blast
    let ?new = "(guid shape, mesh, mat) # new"
    have "\<forall>i < length ?new. fst (?new ! i) = guid (present (x # xs) ! i) \<and>
          meshes st' ab (''mesh-'' @ geometry_id (present (x # xs) ! i)) = Some (fst (snd (?new ! i)))"
    proof (intro allI impI)
      fix i assume "i < length ?new"
      then show "fst (?new ! i) = guid (present (x # xs) ! i) \<and>
          meshes st' ab (''mesh-'' @ geometry_id (present (x # xs) ! i)) = Some (fst (snd (?new ! i)))"
        using new(3) add_each_keeps [OF rest cached] Some
        by (cases i) auto
    qed
    moreover have "cm st' ab = Some (objs0 @ ?new)" using new(1) by simp
    moreover have "length ?new = length (present (x # xs))" using new(2) Some by simp
    ultimately show ?thesis by blast
  qed
qed

lemma add_each_scene_defined:
  "add_each ab st xs = Inr st' \<Longrightarrow> present xs \<noteq> [] \<Longrightarrow> \<exists>objs0. cm st ab = Some objs0"
proof (induction xs arbitrary: st)
  case Nil
  then show ?case by simp
next
  case (Cons x xs)
  then obtain s where s: "add_collision_object ab st x = Inr s" and rest: "add_each ab s xs = Inr st'"
    by (auto simp: ebind_Inr_iff)
  show ?case
  proof (cases x)
    case None
    with s have "s = st" by (simp add: add_collision_object_def)
    with Cons.IH [OF rest] Cons.prems(2) None show ?thesis by simp
  next
    case (Some shape)
    from add_collision_object_effect [OF s [unfolded Some]] show ?thesis by blast
  qed
qed

lemma find_Some_if_filter:
  "0 < length (filter P xs) \<Longrightarrow> \<exists>x. find P xs = Some x"
  by (induction xs) auto

text \<open>
  C4. When the shape stream of a side holds at least one shape with the geometry id \<open>g\<close>,
  and the side's cache has no mesh for \<open>g\<close> at the start (as in a new detector),
  \<open>create_mesh\<close> is called once for \<open>g\<close> on that side, however many shapes share the id: at
  the first of them. The cache then holds that mesh, and the object added to the scene for
  each shape with the id \<open>g\<close> carries it.
\<close>

theorem add_collision_loop_builds_once:
  assumes run: "add_collision_loop ab st cur rest = Inr st'"
    and fresh: "meshes st ab (''mesh-'' @ g) = None" "(ab, g) \<notin> set (create_mesh_calls st)"
    and n: "0 < length (filter (\<lambda>s. geometry_id s = g) (present (cur # rest)))"
  shows "count_list (create_mesh_calls st') (ab, g) = 1 \<and>
         (\<exists>s0 m objs0 new.
            find (\<lambda>s. geometry_id s = g) (present (cur # rest)) = Some s0 \<and>
            create_mesh s0 = Inr m \<and> meshes st' ab (''mesh-'' @ g) = Some m \<and>
            cm st ab = Some objs0 \<and> cm st' ab = Some (objs0 @ new) \<and>
            length new = length (present (cur # rest)) \<and>
            (\<forall>i < length new. fst (new ! i) = guid (present (cur # rest) ! i) \<and>
               (geometry_id (present (cur # rest) ! i) = g \<longrightarrow> fst (snd (new ! i)) = m)))"
proof -
  from run have each: "add_each ab st (cur # rest) = Inr st'"
    by (simp only: add_collision_loop_add_each)
  from find_Some_if_filter [OF n] obtain s0
    where s0: "find (\<lambda>s. geometry_id s = g) (present (cur # rest)) = Some s0" ..
  from add_each_first_build [OF each fresh(1) s0] obtain m where
    m: "create_mesh s0 = Inr m" "meshes st' ab (''mesh-'' @ g) = Some m"
    and c: "count_list (create_mesh_calls st') (ab, g) = count_list (create_mesh_calls st) (ab, g) + 1"
    by blast
  from fresh(2) have "count_list (create_mesh_calls st) (ab, g) = 0"
    by (simp add: count_list_0_iff)
  with c have one: "count_list (create_mesh_calls st') (ab, g) = 1" by simp
  from n have "present (cur # rest) \<noteq> []" by auto
  from add_each_scene_defined [OF each this] obtain objs0 where objs0: "cm st ab = Some objs0" ..
  from add_each_scene [OF each objs0] obtain new where
    new: "cm st' ab = Some (objs0 @ new)" "length new = length (present (cur # rest))"
      "\<forall>i < length new. fst (new ! i) = guid (present (cur # rest) ! i) \<and>
          meshes st' ab (''mesh-'' @ geometry_id (present (cur # rest) ! i)) = Some (fst (snd (new ! i)))"
    by blast
  have "\<forall>i < length new. fst (new ! i) = guid (present (cur # rest) ! i) \<and>
               (geometry_id (present (cur # rest) ! i) = g \<longrightarrow> fst (snd (new ! i)) = m)"
    using new(3) m(2) by auto
  with one s0 m objs0 new(1,2) show ?thesis by blast
qed

lemma example_add_loop:
  "\<exists>st'. add_collision_loop A example_clasher (Some unit_triangle)
      [None, Some (unit_triangle\<lparr>guid := ''g2''\<rparr>)] = Inr st'"
proof -
  have g: "by_guid example_file (guid unit_triangle) = Inr (example_element ''IfcWall'' ''g1'' None [])"
    "by_guid example_file ''g2'' = Inr (example_element ''IfcSpace'' ''g2'' None [])"
    by (simp_all add: by_guid_def example_file_def unit_triangle_def example_element_def)
  have t: "transformation (matrix_data unit_triangle) =
      Inr [[1, 0, 0, 5], [0, 1, 0, 6], [0, 0, 1, 7], [0, 0, 0, 1]]"
    by (simp add: transformation_def unit_triangle_def)
  show ?thesis
    by (simp add: add_collision_object_def example_clasher_def IfcClasher_def the_ifc_def the_cm_def
      create_mesh_unit_triangle Let_def g t)
qed

theorem add_collision_loop_builds_once_witness:
  "\<exists>st' t1 t2. add_collision_loop A example_clasher (Some unit_triangle)
      [None, Some (unit_triangle\<lparr>guid := ''g2''\<rparr>)] = Inr st' \<and>
     count_list (create_mesh_calls st') (A, ''7'') = 1 \<and>
     cm st' A = Some [(''g1'', \<lparr>faces = [[0, 1, 2]], vertices = [[0, 0, 0], [1, 0, 0], [0, 1, 0]]\<rparr>, t1),
                      (''g2'', \<lparr>faces = [[0, 1, 2]], vertices = [[0, 0, 0], [1, 0, 0], [0, 1, 0]]\<rparr>, t2)]"
proof -
  let ?s2 = "unit_triangle\<lparr>guid := ''g2''\<rparr>"
  let ?m = "\<lparr>faces = [[0, 1, 2]], vertices = [[0, 0, 0], [1, 0, 0], [0, 1, 0]]\<rparr>"
  from example_add_loop obtain st' where
    run: "add_collision_loop A example_clasher (Some unit_triangle) [None, Some ?s2] = Inr st'" ..
  have p: "present [Some unit_triangle, None, Some ?s2] = [unit_triangle, ?s2]" by simp
  have gid: "geometry_id unit_triangle = ''7''" "geometry_id ?s2 = ''7''"
    "guid unit_triangle = ''g1''" "guid ?s2 = ''g2''"
    by (simp_all add: unit_triangle_def)
  have fresh: "meshes example_clasher A (''mesh-'' @ ''7'') = None"
    "(A, ''7'') \<notin> set (create_mesh_calls example_clasher)"
    by (simp_all add: example_clasher_def IfcClasher_def)
  have n: "0 < length (filter (\<lambda>s. geometry_id s = ''7'') (present [Some unit_triangle, None, Some ?s2]))"
    by (simp add: gid)
  have f: "find (\<lambda>s. geometry_id s = ''7'') (present [Some unit_triangle, None, Some ?s2]) = Some unit_triangle"
    by (simp add: gid)
  note inst = add_collision_loop_builds_once [OF run fresh n]
  from inst have one: "count_list (create_mesh_calls st') (A, ''7'') = 1" by (rule conjunct1)
  from inst obtain s0 m objs0 new where
    s0: "find (\<lambda>s. geometry_id s = ''7'') (present [Some unit_triangle, None, Some ?s2]) = Some s0"
    and m0: "create_mesh s0 = Inr m"
    and objs0: "cm example_clasher A = Some objs0"
    and scene0: "cm st' A = Some (objs0 @ new)"
    and len0: "length new = length (present [Some unit_triangle, None, Some ?s2])"
    and each0: "\<forall>i < length new. fst (new ! i) = guid (present [Some unit_triangle, None, Some ?s2] ! i) \<and>
               (geometry_id (present [Some unit_triangle, None, Some ?s2] ! i) = ''7'' \<longrightarrow>
                  fst (snd (new ! i)) = m)"
    by blast
  from s0 f have "s0 = unit_triangle" by simp
  with m0 have m: "create_mesh unit_triangle = Inr m" by simp
  from objs0 have "objs0 = []" by (simp add: example_clasher_simps)
  with scene0 have scene: "cm st' A = Some new" by simp
  from len0 have len: "length new = 2" by (simp only: p) simp
  from each0 have each: "\<forall>i < length new. fst (new ! i) = guid ([unit_triangle, ?s2] ! i) \<and>
               (geometry_id ([unit_triangle, ?s2] ! i) = ''7'' \<longrightarrow> fst (snd (new ! i)) = m)"
    by (simp only: p)
  from m have m_eq: "m = ?m" by (simp add: create_mesh_unit_triangle)
  from len obtain o1 o2 where new: "new = [o1, o2]"
    by (auto simp: length_Suc_conv numeral_2_eq_2)
  from each [rule_format, of 0] each [rule_format, of 1] new gid m_eq
  have "fst o1 = ''g1''" "fst (snd o1) = ?m" "fst o2 = ''g2''" "fst (snd o2) = ?m"
    by simp_all
  then have "o1 = (''g1'', ?m, snd (snd o1))" "o2 = (''g2'', ?m, snd (snd o2))"
    by (simp_all add: prod_eq_iff)
  with scene new have "cm st' A = Some [(''g1'', ?m, snd (snd o1)), (''g2'', ?m, snd (snd o2))]"
    by simp
  with run one show ?thesis by blast
qed

section \<open>Placement normalisation\<close>

lemma patch_ifc_patch_file:
  "patch_ifc limit ab st =
     ebind (the_ifc st ab) (\<lambda>f.
     ebind (patch_file limit f) (\<lambda>f2. Inr (st\<lparr>ifc := (ifc st)(ab := Some f2)\<rparr>)))"
  by (simp add: patch_ifc_def patch_file_def ebind_assoc)

lemma same_entities_refl: "same_entities f f"
  by (simp add: same_entities_def)

lemma same_entities_overwrite:
  "dom pm \<subseteq> dom (cartesian_points f) \<Longrightarrow> dom dm \<subseteq> dom (directions f) \<Longrightarrow>
     same_entities f g \<Longrightarrow> same_entities (overwrite pm dm f) (overwrite pm dm g)"
  by (simp add: same_entities_def overwrite_def)

lemma same_entities_overwrite_self:
  "dom pm \<subseteq> dom (cartesian_points f) \<Longrightarrow> dom dm \<subseteq> dom (directions f) \<Longrightarrow>
     same_entities f (overwrite pm dm f)"
  by (simp add: same_entities_def overwrite_def Un_absorb1)

lemma overwrite_overwrite:
  "overwrite pm2 dm2 (overwrite pm1 dm1 g) = overwrite (pm1 ++ pm2) (dm1 ++ dm2) g"
  by (simp add: overwrite_def)

lemma overwrite_empty: "overwrite Map.empty Map.empty g = g"
  by (simp add: overwrite_def)

lemma map_add_twice: "(m ++ p) ++ p = m ++ (p :: 'a \<rightharpoonup> 'b)"
  by (rule ext) (simp add: map_add_def split: option.splits)

lemma overwrite_twice: "overwrite pm dm (overwrite pm dm g) = overwrite pm dm g"
  by (simp add: overwrite_def map_add_twice)

lemma deref_same: "elements f = elements g \<Longrightarrow> deref f = deref g"
  by (rule ext) (simp add: deref_def)

lemma RelativePlacement_same:
  assumes "same_entities f g"
  shows "RelativePlacement f e = RelativePlacement g e"
proof -
  from assms have el: "elements f = elements g" by (simp add: same_entities_def)
  from assms deref_same [OF el]
  have eq: "deref f = deref g" "local_placements f = local_placements g"
    "axis_placements f = axis_placements g"
    by (simp_all add: same_entities_def)
  show ?thesis unfolding RelativePlacement_def eq by (rule refl)
qed

lemma set_Coordinates_overwrite:
  assumes "set_Coordinates f loc v = Inr f'" and "same_entities f g"
  shows "\<exists>l. loc = Some l \<and> l \<in> dom (cartesian_points f) \<and>
           f' = overwrite [l \<mapsto> v] Map.empty f \<and>
           set_Coordinates g loc v = Inr (overwrite [l \<mapsto> v] Map.empty g)"
proof -
  from assms(1) obtain l old where l: "loc = Some l" "cartesian_points f l = Some old"
    and f': "f' = f\<lparr>cartesian_points := (cartesian_points f)(l \<mapsto> v)\<rparr>"
    by (auto simp: set_Coordinates_def split: option.splits)
  from assms(2) have "dom (cartesian_points f) = dom (cartesian_points g)"
    by (simp add: same_entities_def)
  with l(2) have "l \<in> dom (cartesian_points g)" by (metis domI)
  then obtain old' where "cartesian_points g l = Some old'" by (auto dest: domD)
  with l f' show ?thesis
    by (auto simp: set_Coordinates_def overwrite_def)
qed

lemma set_DirectionRatios_overwrite:
  assumes "set_DirectionRatios f d v = Inr f'" and "same_entities f g"
  shows "d \<in> dom (directions f) \<and> f' = overwrite Map.empty [d \<mapsto> v] f \<and>
           set_DirectionRatios g d v = Inr (overwrite Map.empty [d \<mapsto> v] g)"
proof -
  from assms(1) obtain old where d: "directions f d = Some old"
    and f': "f' = f\<lparr>directions := (directions f)(d \<mapsto> v)\<rparr>"
    by (auto simp: set_DirectionRatios_def split: option.splits)
  from assms(2) have "dom (directions f) = dom (directions g)"
    by (simp add: same_entities_def)
  with d have "d \<in> dom (directions g)" by (metis domI)
  then obtain old' where "directions g d = Some old'" by (auto dest: domD)
  with d f' show ?thesis
    by (auto simp: set_DirectionRatios_def overwrite_def)
qed

text \<open>
  A successful patch of one element overwrites some points and directions with values
  that depend on the entities only, and does the same on every file with these entities.
\<close>

lemma patch_placement_to_origin_writes:
  assumes "patch_placement_to_origin f e = Inr f'"
  shows "\<exists>p l. RelativePlacement f e = Inr p \<and> Location p = Some l \<and>
           l \<in> dom (cartesian_points f) \<and> dom (canonical_directions p) \<subseteq> dom (directions f) \<and>
           (\<forall>g. same_entities f g \<longrightarrow>
              patch_placement_to_origin g e =
                Inr (overwrite [l \<mapsto> [0, 0, 0]] (canonical_directions p) g))"
proof -
  from assms obtain p f1 p1 f2 p2 where
    p: "RelativePlacement f e = Inr p"
    and f1: "set_Coordinates f (Location p) [0, 0, 0] = Inr f1"
    and p1: "RelativePlacement f1 e = Inr p1"
    and f2: "(case Axis p1 of None \<Rightarrow> Inr f1 | Some a \<Rightarrow> set_DirectionRatios f1 a [0, 0, 1]) = Inr f2"
    and p2: "RelativePlacement f2 e = Inr p2"
    and f': "(case RefDirection p2 of None \<Rightarrow> Inr f2 | Some r \<Rightarrow> set_DirectionRatios f2 r [1, 0, 0]) = Inr f'"
    by (auto simp: patch_placement_to_origin_def ebind_Inr_iff)
  from set_Coordinates_overwrite [OF f1 same_entities_refl] obtain l where
    l: "Location p = Some l" "l \<in> dom (cartesian_points f)"
    and f1_eq: "f1 = overwrite [l \<mapsto> [0, 0, 0]] Map.empty f"
    by blast
  let ?pm = "[l \<mapsto> [0, 0, 0 :: real]]"
  have pm: "dom ?pm \<subseteq> dom (cartesian_points f)" using l(2) by simp
  have se1: "same_entities f f1"
    unfolding f1_eq by (rule same_entities_overwrite_self) (use pm in simp_all)
  from p p1 RelativePlacement_same [OF se1, of e] have p1_eq: "p1 = p" by simp
  define dm1 :: "nat \<rightharpoonup> real list" where
    "dm1 = (case Axis p of None \<Rightarrow> Map.empty | Some a \<Rightarrow> [a \<mapsto> [0, 0, 1]])"
  have step2: "dom dm1 \<subseteq> dom (directions f1) \<and> f2 = overwrite Map.empty dm1 f1 \<and>
      (\<forall>g. same_entities f1 g \<longrightarrow>
         (case Axis p of None \<Rightarrow> Inr g | Some a \<Rightarrow> set_DirectionRatios g a [0, 0, 1]) =
           Inr (overwrite Map.empty dm1 g))"
  proof (cases "Axis p")
    case None
    with f2 p1_eq show ?thesis by (simp add: dm1_def overwrite_empty)
  next
    case (Some a)
    with f2 p1_eq have w: "set_DirectionRatios f1 a [0, 0, 1] = Inr f2" by simp
    from set_DirectionRatios_overwrite [OF w same_entities_refl]
    have "a \<in> dom (directions f1)" "f2 = overwrite Map.empty [a \<mapsto> [0, 0, 1]] f1" by simp_all
    moreover have "set_DirectionRatios g a [0, 0, 1] = Inr (overwrite Map.empty [a \<mapsto> [0, 0, 1]] g)"
      if "same_entities f1 g" for g
      using set_DirectionRatios_overwrite [OF w that] by simp
    ultimately show ?thesis using Some by (simp add: dm1_def)
  qed
  have se2: "same_entities f1 f2"
    using step2 same_entities_overwrite_self [of Map.empty f1 dm1] by simp
  have se02: "same_entities f f2"
    using se1 se2 by (simp add: same_entities_def)
  from p p2 RelativePlacement_same [OF se02, of e] have p2_eq: "p2 = p" by simp
  define dm2 :: "nat \<rightharpoonup> real list" where
    "dm2 = (case RefDirection p of None \<Rightarrow> Map.empty | Some r \<Rightarrow> [r \<mapsto> [1, 0, 0]])"
  have step3: "dom dm2 \<subseteq> dom (directions f2) \<and> f' = overwrite Map.empty dm2 f2 \<and>
      (\<forall>g. same_entities f2 g \<longrightarrow>
         (case RefDirection p of None \<Rightarrow> Inr g | Some r \<Rightarrow> set_DirectionRatios g r [1, 0, 0]) =
           Inr (overwrite Map.empty dm2 g))"
  proof (cases "RefDirection p")
    case None
    with f' p2_eq show ?thesis by (simp add: dm2_def overwrite_empty)
  next
    case (Some r)
    with f' p2_eq have w: "set_DirectionRatios f2 r [1, 0, 0] = Inr f'" by simp
    from set_DirectionRatios_overwrite [OF w same_entities_refl]
    have "r \<in> dom (directions f2)" "f' = overwrite Map.empty [r \<mapsto> [1, 0, 0]] f2" by simp_all
    moreover have "set_DirectionRatios g r [1, 0, 0] = Inr (overwrite Map.empty [r \<mapsto> [1, 0, 0]] g)"
      if "same_entities f2 g" for g
      using set_DirectionRatios_overwrite [OF w that] by simp
    ultimately show ?thesis using Some by (simp add: dm2_def)
  qed
  have doms: "dom (directions f1) = dom (directions f)" "dom (directions f2) = dom (directions f)"
    using se1 se02 by (simp_all add: same_entities_def)
  have dm: "dom (dm1 ++ dm2) \<subseteq> dom (directions f)"
    using step2 step3 doms by auto
  have "patch_placement_to_origin g e = Inr (overwrite ?pm (dm1 ++ dm2) g)"
    if se: "same_entities f g" for g
  proof -
    let ?g1 = "overwrite ?pm Map.empty g"
    let ?g2 = "overwrite Map.empty dm1 ?g1"
    have a: "RelativePlacement g e = Inr p"
      using RelativePlacement_same [OF se, of e] p by simp
    have b: "set_Coordinates g (Location p) [0, 0, 0] = Inr ?g1"
      using set_Coordinates_overwrite [OF f1 se] l(1) by simp
    have se_g1: "same_entities f1 ?g1"
      unfolding f1_eq by (rule same_entities_overwrite [OF _ _ se]) (use pm in simp_all)
    have c: "RelativePlacement ?g1 e = Inr p"
      using RelativePlacement_same [OF se_g1, of e] p1 p1_eq by simp
    have d: "(case Axis p of None \<Rightarrow> Inr ?g1 | Some a \<Rightarrow> set_DirectionRatios ?g1 a [0, 0, 1]) = Inr ?g2"
      using step2 se_g1 by blast
    have se_g2: "same_entities f2 ?g2"
    proof -
      have "same_entities (overwrite Map.empty dm1 f1) (overwrite Map.empty dm1 ?g1)"
        by (rule same_entities_overwrite [OF _ _ se_g1]) (use step2 in simp_all)
      with step2 show ?thesis by simp
    qed
    have e': "RelativePlacement ?g2 e = Inr p"
      using RelativePlacement_same [OF se_g2, of e] p2 p2_eq by simp
    have f: "(case RefDirection p of None \<Rightarrow> Inr ?g2 | Some r \<Rightarrow> set_DirectionRatios ?g2 r [1, 0, 0]) =
        Inr (overwrite Map.empty dm2 ?g2)"
      using step3 se_g2 by blast
    have "patch_placement_to_origin g e = Inr (overwrite Map.empty dm2 ?g2)"
      by (simp add: patch_placement_to_origin_def a b c d e' f)
    then show ?thesis by (simp add: overwrite_overwrite)
  qed
  moreover have "dm1 ++ dm2 = canonical_directions p"
    by (simp add: dm1_def dm2_def canonical_directions_def)
  ultimately show ?thesis using p l dm by auto
qed

lemma patch_placement_to_origin_overwrite:
  assumes "patch_placement_to_origin f e = Inr f'"
  shows "\<exists>pm dm. dom pm \<subseteq> dom (cartesian_points f) \<and> dom dm \<subseteq> dom (directions f) \<and>
           (\<forall>g. same_entities f g \<longrightarrow> patch_placement_to_origin g e = Inr (overwrite pm dm g))"
proof -
  from patch_placement_to_origin_writes [OF assms] obtain p l where
    "l \<in> dom (cartesian_points f)" "dom (canonical_directions p) \<subseteq> dom (directions f)"
    "\<forall>g. same_entities f g \<longrightarrow>
       patch_placement_to_origin g e = Inr (overwrite [l \<mapsto> [0, 0, 0]] (canonical_directions p) g)"
    by blast
  then show ?thesis
    by (intro exI [of _ "[l \<mapsto> [0, 0, 0]]"] exI [of _ "canonical_directions p"]) simp
qed

text \<open>
  The values one patch leaves: the location is the origin, the reference direction, when
  there is one, is \<open>(1, 0, 0)\<close>, and the axis, when there is one and it is not the same
  entity as the reference direction, is \<open>(0, 0, 1)\<close>.
\<close>

lemma patch_placement_to_origin_values:
  assumes "patch_placement_to_origin f e = Inr f'"
  shows "\<exists>p l. RelativePlacement f e = Inr p \<and> Location p = Some l \<and>
           cartesian_points f' l = Some [0, 0, 0] \<and>
           (\<forall>r. RefDirection p = Some r \<longrightarrow> directions f' r = Some [1, 0, 0]) \<and>
           (\<forall>a. Axis p = Some a \<longrightarrow> RefDirection p \<noteq> Some a \<longrightarrow> directions f' a = Some [0, 0, 1])"
proof -
  from patch_placement_to_origin_writes [OF assms] obtain p l where
    p: "RelativePlacement f e = Inr p" "Location p = Some l"
    and all: "\<forall>g. same_entities f g \<longrightarrow>
       patch_placement_to_origin g e = Inr (overwrite [l \<mapsto> [0, 0, 0]] (canonical_directions p) g)"
    by blast
  from all assms have f': "f' = overwrite [l \<mapsto> [0, 0, 0]] (canonical_directions p) f"
    using same_entities_refl [of f] by auto
  have "cartesian_points f' l = Some [0, 0, 0]" by (simp add: f' overwrite_def)
  moreover have "directions f' r = Some [1, 0, 0]" if "RefDirection p = Some r" for r
    using that by (simp add: f' overwrite_def canonical_directions_def)
  moreover have "directions f' a = Some [0, 0, 1]" if "Axis p = Some a" "RefDirection p \<noteq> Some a" for a
    using that by (cases "RefDirection p") (simp_all add: f' overwrite_def canonical_directions_def map_add_def)
  ultimately show ?thesis using p by blast
qed

lemma patch_each_overwrite:
  "patch_each f es = Inr f' \<Longrightarrow>
     \<exists>pm dm. dom pm \<subseteq> dom (cartesian_points f) \<and> dom dm \<subseteq> dom (directions f) \<and>
       (\<forall>g. same_entities f g \<longrightarrow> patch_each g es = Inr (overwrite pm dm g))"
proof (induction es arbitrary: f)
  case Nil
  have "\<forall>g. same_entities f g \<longrightarrow> patch_each g [] = Inr (overwrite Map.empty Map.empty g)"
    by (simp add: overwrite_empty)
  then show ?case by (intro exI [of _ Map.empty]) simp
next
  case (Cons e es)
  then obtain f1 where f1: "patch_placement_to_origin f e = Inr f1" and rest: "patch_each f1 es = Inr f'"
    by (auto simp: ebind_Inr_iff)
  from patch_placement_to_origin_overwrite [OF f1] obtain pm1 dm1 where
    d1: "dom pm1 \<subseteq> dom (cartesian_points f)" "dom dm1 \<subseteq> dom (directions f)"
    and all1: "\<forall>g. same_entities f g \<longrightarrow> patch_placement_to_origin g e = Inr (overwrite pm1 dm1 g)"
    by blast
  from all1 f1 have f1_eq: "f1 = overwrite pm1 dm1 f"
    using same_entities_refl [of f] by auto
  from Cons.IH [OF rest] obtain pm2 dm2 where
    d2: "dom pm2 \<subseteq> dom (cartesian_points f1)" "dom dm2 \<subseteq> dom (directions f1)"
    and all2: "\<forall>g. same_entities f1 g \<longrightarrow> patch_each g es = Inr (overwrite pm2 dm2 g)"
    by blast
  have se1: "same_entities f f1"
    unfolding f1_eq by (rule same_entities_overwrite_self [OF d1])
  then have doms: "dom (cartesian_points f1) = dom (cartesian_points f)"
    "dom (directions f1) = dom (directions f)"
    by (simp_all add: same_entities_def)
  have "patch_each g (e # es) = Inr (overwrite (pm1 ++ pm2) (dm1 ++ dm2) g)"
    if se: "same_entities f g" for g
  proof -
    have "same_entities f1 (overwrite pm1 dm1 g)"
      unfolding f1_eq by (rule same_entities_overwrite [OF d1 se])
    with all2 have "patch_each (overwrite pm1 dm1 g) es = Inr (overwrite pm2 dm2 (overwrite pm1 dm1 g))"
      by blast
    with all1 se show ?thesis by (simp add: overwrite_overwrite)
  qed
  moreover have "dom (pm1 ++ pm2) \<subseteq> dom (cartesian_points f)" "dom (dm1 ++ dm2) \<subseteq> dom (directions f)"
    using d1 d2 doms by auto
  ultimately show ?case by blast
qed

text \<open>The search reads the elements only.\<close>

lemma for_parts_same:
  "deref f = deref g \<Longrightarrow> for_parts rec f c results parts = for_parts rec g c results parts"
  by (induction parts arbitrary: results) simp_all

lemma for_rels_same:
  assumes "deref f = deref g"
  shows "for_rels rec f c results rels = for_rels rec g c results rels"
  by (induction rels arbitrary: results) (simp_all add: for_parts_same [OF assms])

lemma find_decomposed_ifc_class_same:
  assumes "elements f = elements g"
  shows "find_decomposed_ifc_class n f e c = find_decomposed_ifc_class n g e c"
proof (induction n arbitrary: e)
  case 0
  show ?case by simp
next
  case (Suc n)
  have "(\<lambda>part. find_decomposed_ifc_class n f part c) = (\<lambda>part. find_decomposed_ifc_class n g part c)"
    using Suc.IH by (intro ext)
  then show ?case
    by (simp add: deref_same [OF assms] for_rels_same [OF deref_same [OF assms]] cong: if_cong)
qed

lemma patch_file_overwrite:
  assumes "patch_file limit f = Inr f'"
  shows "\<exists>pm dm. dom pm \<subseteq> dom (cartesian_points f) \<and> dom dm \<subseteq> dom (directions f) \<and>
       (\<forall>g. same_entities f g \<longrightarrow> patch_file limit g = Inr (overwrite pm dm g))"
proof -
  from assms obtain project sites f1 buildings where
    pr: "getitem (by_type f ''IfcProject'') 0 = Inr project"
    and si: "find_decomposed_ifc_class limit f project ''IfcSite'' = Inr sites"
    and f1: "patch_each f sites = Inr f1"
    and bu: "find_decomposed_ifc_class limit f1 project ''IfcBuilding'' = Inr buildings"
    and f': "patch_each f1 buildings = Inr f'"
    by (auto simp: patch_file_def ebind_Inr_iff)
  from patch_each_overwrite [OF f1] obtain pm1 dm1 where
    d1: "dom pm1 \<subseteq> dom (cartesian_points f)" "dom dm1 \<subseteq> dom (directions f)"
    and all1: "\<forall>g. same_entities f g \<longrightarrow> patch_each g sites = Inr (overwrite pm1 dm1 g)"
    by blast
  from all1 f1 have f1_eq: "f1 = overwrite pm1 dm1 f"
    using same_entities_refl [of f] by auto
  have se1: "same_entities f f1"
    unfolding f1_eq by (rule same_entities_overwrite_self [OF d1])
  then have doms: "dom (cartesian_points f1) = dom (cartesian_points f)"
    "dom (directions f1) = dom (directions f)"
    by (simp_all add: same_entities_def)
  from patch_each_overwrite [OF f'] obtain pm2 dm2 where
    d2: "dom pm2 \<subseteq> dom (cartesian_points f1)" "dom dm2 \<subseteq> dom (directions f1)"
    and all2: "\<forall>g. same_entities f1 g \<longrightarrow> patch_each g buildings = Inr (overwrite pm2 dm2 g)"
    by blast
  have "patch_file limit g = Inr (overwrite (pm1 ++ pm2) (dm1 ++ dm2) g)"
    if se: "same_entities f g" for g
  proof -
    from se have el: "elements g = elements f" by (simp add: same_entities_def)
    have a: "getitem (by_type g ''IfcProject'') 0 = Inr project"
      using pr el by (simp add: by_type_def)
    have b: "find_decomposed_ifc_class limit g project ''IfcSite'' = Inr sites"
      using si find_decomposed_ifc_class_same [OF el] by simp
    have c: "patch_each g sites = Inr (overwrite pm1 dm1 g)"
      using all1 se by blast
    have se_g1: "same_entities f1 (overwrite pm1 dm1 g)"
      unfolding f1_eq by (rule same_entities_overwrite [OF d1 se])
    then have el1: "elements (overwrite pm1 dm1 g) = elements f1" by (simp add: same_entities_def)
    have d: "find_decomposed_ifc_class limit (overwrite pm1 dm1 g) project ''IfcBuilding'' = Inr buildings"
      using bu find_decomposed_ifc_class_same [OF el1] by simp
    have e: "patch_each (overwrite pm1 dm1 g) buildings = Inr (overwrite pm2 dm2 (overwrite pm1 dm1 g))"
      using all2 se_g1 by blast
    show ?thesis
      by (simp add: patch_file_def a b c d e overwrite_overwrite)
  qed
  moreover have "dom (pm1 ++ pm2) \<subseteq> dom (cartesian_points f)" "dom (dm1 ++ dm2) \<subseteq> dom (directions f)"
    using d1 d2 doms by auto
  ultimately show ?thesis by blast
qed

lemma patch_file_idem:
  assumes "patch_file limit f = Inr f'"
  shows "patch_file limit f' = Inr f'"
proof -
  from patch_file_overwrite [OF assms] obtain pm dm where
    d: "dom pm \<subseteq> dom (cartesian_points f)" "dom dm \<subseteq> dom (directions f)"
    and all: "\<forall>g. same_entities f g \<longrightarrow> patch_file limit g = Inr (overwrite pm dm g)"
    by blast
  from all assms have f'_eq: "f' = overwrite pm dm f"
    using same_entities_refl [of f] by auto
  have "same_entities f f'"
    unfolding f'_eq by (rule same_entities_overwrite_self [OF d])
  with all have "patch_file limit f' = Inr (overwrite pm dm f')" by blast
  then show ?thesis by (simp add: f'_eq overwrite_twice)
qed

subsection \<open>The values a normalisation leaves\<close>

lemma written_same:
  assumes "same_entities f g"
  shows "written_points f ts = written_points g ts"
    and "written_directions f ts = written_directions g ts"
  by (induction ts) (simp_all add: RelativePlacement_same [OF assms])

lemma written_append:
  "written_points f (xs @ ys) = written_points f xs ++ written_points f ys"
  "written_directions f (xs @ ys) = written_directions f xs ++ written_directions f ys"
  by (induction xs) simp_all

lemma patch_each_writes:
  "patch_each f ts = Inr f' \<Longrightarrow>
     (\<forall>t \<in> set ts. \<exists>p l. RelativePlacement f t = Inr p \<and> Location p = Some l) \<and>
     dom (written_points f ts) \<subseteq> dom (cartesian_points f) \<and>
     dom (written_directions f ts) \<subseteq> dom (directions f) \<and>
     (\<forall>g. same_entities f g \<longrightarrow>
        patch_each g ts = Inr (overwrite (written_points f ts) (written_directions f ts) g))"
proof (induction ts arbitrary: f)
  case Nil
  show ?case by (simp add: overwrite_empty)
next
  case (Cons t ts)
  then obtain f1 where f1: "patch_placement_to_origin f t = Inr f1" and rest: "patch_each f1 ts = Inr f'"
    by (auto simp: ebind_Inr_iff)
  from patch_placement_to_origin_writes [OF f1] obtain p l where
    p: "RelativePlacement f t = Inr p" "Location p = Some l"
    and d1: "l \<in> dom (cartesian_points f)" "dom (canonical_directions p) \<subseteq> dom (directions f)"
    and all1: "\<forall>g. same_entities f g \<longrightarrow>
      patch_placement_to_origin g t = Inr (overwrite [l \<mapsto> [0, 0, 0]] (canonical_directions p) g)"
    by blast
  from all1 f1 have f1_eq: "f1 = overwrite [l \<mapsto> [0, 0, 0]] (canonical_directions p) f"
    using same_entities_refl [of f] by auto
  have se1: "same_entities f f1"
    unfolding f1_eq by (rule same_entities_overwrite_self) (use d1 in simp_all)
  then have doms: "dom (cartesian_points f1) = dom (cartesian_points f)"
    "dom (directions f1) = dom (directions f)"
    by (simp_all add: same_entities_def)
  note w = written_same [OF se1, of ts, symmetric]
  from Cons.IH [OF rest] have
    each: "\<forall>t \<in> set ts. \<exists>p l. RelativePlacement f1 t = Inr p \<and> Location p = Some l"
    and d2: "dom (written_points f ts) \<subseteq> dom (cartesian_points f)"
      "dom (written_directions f ts) \<subseteq> dom (directions f)"
    and all2: "\<forall>g. same_entities f1 g \<longrightarrow>
        patch_each g ts = Inr (overwrite (written_points f ts) (written_directions f ts) g)"
    by (simp_all add: w doms)
  have a: "\<forall>u \<in> set (t # ts). \<exists>p l. RelativePlacement f u = Inr p \<and> Location p = Some l"
    using p each by (auto simp: RelativePlacement_same [OF se1])
  have wp: "written_points f (t # ts) = [l \<mapsto> [0, 0, 0]] ++ written_points f ts"
    and wd: "written_directions f (t # ts) = canonical_directions p ++ written_directions f ts"
    by (simp_all add: p)
  have b: "dom (written_points f (t # ts)) \<subseteq> dom (cartesian_points f)"
    "dom (written_directions f (t # ts)) \<subseteq> dom (directions f)"
    unfolding wp wd using d1 d2 by auto
  have c: "patch_each g (t # ts) =
      Inr (overwrite (written_points f (t # ts)) (written_directions f (t # ts)) g)"
    if se: "same_entities f g" for g
  proof -
    have "same_entities f1 (overwrite [l \<mapsto> [0, 0, 0]] (canonical_directions p) g)"
      unfolding f1_eq by (rule same_entities_overwrite [OF _ _ se]) (use d1 in simp_all)
    with all2 have "patch_each (overwrite [l \<mapsto> [0, 0, 0]] (canonical_directions p) g) ts =
        Inr (overwrite (written_points f ts) (written_directions f ts)
               (overwrite [l \<mapsto> [0, 0, 0]] (canonical_directions p) g))"
      by blast
    with all1 se show ?thesis
      unfolding wp wd by (simp add: overwrite_overwrite)
  qed
  from a b c show ?case by blast
qed

lemma written_points_origin:
  "written_points f ts x = Some v \<Longrightarrow> v = [0, 0, 0]"
  by (induction ts arbitrary: v)
     (auto simp: map_add_Some_iff split: sum.splits option.splits if_splits)

lemma written_points_location:
  "t \<in> set ts \<Longrightarrow> RelativePlacement f t = Inr p \<Longrightarrow> Location p = Some l \<Longrightarrow>
     written_points f ts l = Some [0, 0, 0]"
proof (induction ts)
  case Nil
  then show ?case by simp
next
  case (Cons u ts)
  show ?case
  proof (cases "written_points f ts l")
    case (Some v)
    with written_points_origin [OF Some] show ?thesis by (simp add: map_add_def)
  next
    case None
    with Cons have "u = t" by auto
    with None Cons.prems show ?thesis by (simp add: map_add_def)
  qed
qed

lemma canonical_directions_apply:
  "canonical_directions p d =
     (if RefDirection p = Some d then Some [1, 0, 0]
      else if Axis p = Some d then Some [0, 0, 1] else None)"
  by (cases "Axis p"; cases "RefDirection p") (auto simp: canonical_directions_def map_add_def)

lemma axis_entities_Cons:
  "axis_entities f (t # ts) =
     {a. \<exists>p. RelativePlacement f t = Inr p \<and> Axis p = Some a} \<union> axis_entities f ts"
  by (auto simp: axis_entities_def)

lemma ref_direction_entities_Cons:
  "ref_direction_entities f (t # ts) =
     {r. \<exists>p. RelativePlacement f t = Inr p \<and> RefDirection p = Some r} \<union> ref_direction_entities f ts"
  by (auto simp: ref_direction_entities_def)

lemma written_directions_value:
  "written_directions f ts d = Some v \<Longrightarrow>
     (v = [0, 0, 1] \<and> d \<in> axis_entities f ts) \<or> (v = [1, 0, 0] \<and> d \<in> ref_direction_entities f ts)"
proof (induction ts)
  case Nil
  then show ?case by simp
next
  case (Cons t ts)
  show ?case
  proof (cases "written_directions f ts d")
    case (Some w)
    with Cons.prems have "w = v" by (simp add: map_add_def)
    with Cons.IH Some show ?thesis
      by (auto simp: axis_entities_Cons ref_direction_entities_Cons)
  next
    case None
    with Cons.prems obtain p where p: "RelativePlacement f t = Inr p"
      and c: "canonical_directions p d = Some v"
      by (auto simp: map_add_def split: sum.splits)
    from c p show ?thesis
      by (auto simp: canonical_directions_apply axis_entities_Cons ref_direction_entities_Cons
          split: if_splits)
  qed
qed

lemma written_directions_defined:
  "d \<in> axis_entities f ts \<union> ref_direction_entities f ts \<Longrightarrow> written_directions f ts d \<noteq> None"
proof (induction ts)
  case Nil
  then show ?case by (simp add: axis_entities_def ref_direction_entities_def)
next
  case (Cons t ts)
  show ?case
  proof (cases "d \<in> axis_entities f ts \<union> ref_direction_entities f ts")
    case True
    from Cons.IH [OF this] show ?thesis by (auto simp: map_add_def)
  next
    case False
    with Cons.prems obtain p where p: "RelativePlacement f t = Inr p"
      and d: "Axis p = Some d \<or> RefDirection p = Some d"
      by (auto simp: axis_entities_Cons ref_direction_entities_Cons)
    then have "canonical_directions p d \<noteq> None"
      by (auto simp: canonical_directions_apply)
    with p show ?thesis by (auto simp: map_add_def split: option.splits)
  qed
qed

lemma patch_file_writes:
  assumes "patch_file limit f = Inr f'"
  shows "\<exists>project sites buildings.
           getitem (by_type f ''IfcProject'') 0 = Inr project \<and>
           find_decomposed_ifc_class limit f project ''IfcSite'' = Inr sites \<and>
           find_decomposed_ifc_class limit f project ''IfcBuilding'' = Inr buildings \<and>
           (\<forall>t \<in> set (sites @ buildings). \<exists>p l. RelativePlacement f t = Inr p \<and> Location p = Some l) \<and>
           same_entities f f' \<and>
           f' = overwrite (written_points f (sites @ buildings))
                          (written_directions f (sites @ buildings)) f"
proof -
  from assms obtain project sites f1 buildings where
    pr: "getitem (by_type f ''IfcProject'') 0 = Inr project"
    and si: "find_decomposed_ifc_class limit f project ''IfcSite'' = Inr sites"
    and f1: "patch_each f sites = Inr f1"
    and bu: "find_decomposed_ifc_class limit f1 project ''IfcBuilding'' = Inr buildings"
    and f': "patch_each f1 buildings = Inr f'"
    by (auto simp: patch_file_def ebind_Inr_iff)
  note w1 = patch_each_writes [OF f1]
  from w1 have f1_eq: "f1 = overwrite (written_points f sites) (written_directions f sites) f"
    using f1 same_entities_refl [of f] by auto
  have se1: "same_entities f f1"
    unfolding f1_eq by (rule same_entities_overwrite_self) (use w1 in simp_all)
  then have el: "elements f1 = elements f" by (simp add: same_entities_def)
  note w2 = patch_each_writes [OF f']
  from w2 have f'_eq: "f' = overwrite (written_points f1 buildings) (written_directions f1 buildings) f1"
    using f' same_entities_refl [of f1] by auto
  have se2: "same_entities f1 f'"
    unfolding f'_eq by (rule same_entities_overwrite_self) (use w2 in simp_all)
  have bu': "find_decomposed_ifc_class limit f project ''IfcBuilding'' = Inr buildings"
    using bu find_decomposed_ifc_class_same [OF el] by simp
  have each: "\<forall>t \<in> set (sites @ buildings). \<exists>p l. RelativePlacement f t = Inr p \<and> Location p = Some l"
    using w1 w2 by (auto simp: RelativePlacement_same [OF se1])
  have se: "same_entities f f'"
    using se1 se2 by (simp add: same_entities_def)
  have "f' = overwrite (written_points f (sites @ buildings))
                          (written_directions f (sites @ buildings)) f"
    unfolding f'_eq f1_eq [symmetric] written_same [OF se1, symmetric]
    by (simp add: f1_eq overwrite_overwrite written_append)
  with pr si bu' each se show ?thesis by blast
qed

lemma patch_ifc_again:
  assumes "patch_ifc limit ab st = Inr st'"
  shows "patch_ifc limit ab st' = Inr st'"
proof -
  from assms obtain f f' where f: "the_ifc st ab = Inr f" and p: "patch_file limit f = Inr f'"
    and st': "st' = st\<lparr>ifc := (ifc st)(ab := Some f')\<rparr>"
    by (auto simp: patch_ifc_patch_file ebind_Inr_iff)
  have "the_ifc st' ab = Inr f'" by (simp add: st' the_ifc_def)
  moreover note patch_file_idem [OF p]
  moreover have "st'\<lparr>ifc := (ifc st')(ab := Some f')\<rparr> = st'" by (simp add: st')
  ultimately show ?thesis by (simp add: patch_ifc_patch_file)
qed

text \<open>
  C7. Normalising the placements of a side is idempotent: when \<open>patch_ifc\<close> returns, running
  it again on the result returns the same detector, so every placement value reads after
  the second run as after the first. These values are, for every site and building that
  the search from the project finds: the location is \<open>(0, 0, 0)\<close>; the axis, when there is
  one, is \<open>(0, 0, 1)\<close>, unless its direction entity is also the reference direction of a
  site or building found and holds \<open>(1, 0, 0)\<close>; the reference direction, when there is
  one, is \<open>(1, 0, 0)\<close>, unless its direction entity is also the axis of a site or building
  found and holds \<open>(0, 0, 1)\<close>.
\<close>

theorem patch_ifc_idempotent_canonical:
  assumes "patch_ifc limit ab st = Inr st'"
  shows "patch_ifc limit ab st' = Inr st' \<and>
         (\<exists>f f' project sites buildings.
            ifc st ab = Some f \<and> ifc st' ab = Some f' \<and>
            getitem (by_type f ''IfcProject'') 0 = Inr project \<and>
            find_decomposed_ifc_class limit f project ''IfcSite'' = Inr sites \<and>
            find_decomposed_ifc_class limit f project ''IfcBuilding'' = Inr buildings \<and>
            (\<forall>t \<in> set (sites @ buildings). \<exists>p l.
               RelativePlacement f t = Inr p \<and> RelativePlacement f' t = Inr p \<and>
               Location p = Some l \<and> cartesian_points f' l = Some [0, 0, 0] \<and>
               (\<forall>a. Axis p = Some a \<longrightarrow>
                  directions f' a = Some [0, 0, 1] \<or>
                  (a \<in> ref_direction_entities f (sites @ buildings) \<and>
                   directions f' a = Some [1, 0, 0])) \<and>
               (\<forall>r. RefDirection p = Some r \<longrightarrow>
                  directions f' r = Some [1, 0, 0] \<or>
                  (r \<in> axis_entities f (sites @ buildings) \<and>
                   directions f' r = Some [0, 0, 1]))))"
proof -
  from assms obtain f f' where f: "ifc st ab = Some f" and p: "patch_file limit f = Inr f'"
    and st': "st' = st\<lparr>ifc := (ifc st)(ab := Some f')\<rparr>"
    by (auto simp: patch_ifc_patch_file ebind_Inr_iff the_ifc_def split: option.splits)
  from patch_file_writes [OF p] obtain project sites buildings where
    pr: "getitem (by_type f ''IfcProject'') 0 = Inr project"
    and si: "find_decomposed_ifc_class limit f project ''IfcSite'' = Inr sites"
    and bu: "find_decomposed_ifc_class limit f project ''IfcBuilding'' = Inr buildings"
    and each: "\<forall>t \<in> set (sites @ buildings). \<exists>p l. RelativePlacement f t = Inr p \<and> Location p = Some l"
    and se: "same_entities f f'"
    and f'_eq: "f' = overwrite (written_points f (sites @ buildings))
                          (written_directions f (sites @ buildings)) f"
    by blast
  let ?ts = "sites @ buildings"
  have pts: "cartesian_points f' x = Some v" if "written_points f ?ts x = Some v" for x v
    using that by (simp add: f'_eq overwrite_def map_add_def)
  have dirs: "directions f' x = Some v" if "written_directions f ?ts x = Some v" for x v
    using that by (simp add: f'_eq overwrite_def map_add_def)
  have vals: "\<exists>p l.
               RelativePlacement f t = Inr p \<and> RelativePlacement f' t = Inr p \<and>
               Location p = Some l \<and> cartesian_points f' l = Some [0, 0, 0] \<and>
               (\<forall>a. Axis p = Some a \<longrightarrow>
                  directions f' a = Some [0, 0, 1] \<or>
                  (a \<in> ref_direction_entities f ?ts \<and> directions f' a = Some [1, 0, 0])) \<and>
               (\<forall>r. RefDirection p = Some r \<longrightarrow>
                  directions f' r = Some [1, 0, 0] \<or>
                  (r \<in> axis_entities f ?ts \<and> directions f' r = Some [0, 0, 1]))"
    if t: "t \<in> set ?ts" for t
  proof -
    from each t obtain p l where p: "RelativePlacement f t = Inr p" and l: "Location p = Some l"
      by blast
    have p': "RelativePlacement f' t = Inr p"
      using RelativePlacement_same [OF se, of t] p by simp
    have loc: "cartesian_points f' l = Some [0, 0, 0]"
      by (rule pts) (rule written_points_location [OF t p l])
    have ax: "directions f' a = Some [0, 0, 1] \<or>
        (a \<in> ref_direction_entities f ?ts \<and> directions f' a = Some [1, 0, 0])"
      if a: "Axis p = Some a" for a
    proof -
      from a p t have "a \<in> axis_entities f ?ts" by (auto simp: axis_entities_def)
      with written_directions_defined [of a f ?ts] obtain v
        where v: "written_directions f ?ts a = Some v" by auto
      from written_directions_value [OF v] dirs [OF v] show ?thesis by auto
    qed
    have rf: "directions f' r = Some [1, 0, 0] \<or>
        (r \<in> axis_entities f ?ts \<and> directions f' r = Some [0, 0, 1])"
      if r: "RefDirection p = Some r" for r
    proof -
      from r p t have "r \<in> ref_direction_entities f ?ts" by (auto simp: ref_direction_entities_def)
      with written_directions_defined [of r f ?ts] obtain v
        where v: "written_directions f ?ts r = Some v" by auto
      from written_directions_value [OF v] dirs [OF v] show ?thesis by auto
    qed
    from p p' l loc ax rf show ?thesis by blast
  qed
  have "ifc st' ab = Some f'" by (simp add: st')
  with f pr si bu vals patch_ifc_again [OF assms] show ?thesis by blast
qed

lemma four: "(4::nat) = Suc (Suc (Suc (Suc 0)))" by simp

lemma example_deref:
  "deref example_file 100 = Inr (example_element ''IfcProject'' ''project'' None [[101]])"
  "deref example_file 101 = Inr (example_element ''IfcSite'' ''site'' (Some 10) [[102]])"
  "deref example_file 102 = Inr (example_element ''IfcBuilding'' ''building'' (Some 11) [])"
  by (simp_all add: deref_def example_file_def)

lemma example_is_a:
  "is_a (example_element cls gid pl parts) c \<longleftrightarrow> c = cls \<or> c = ''IfcRoot''"
  by (auto simp: is_a_def example_element_def)

lemma example_parts [simp]:
  "IsDecomposedBy (example_element cls gid pl parts) = parts"
  "ObjectPlacement (example_element cls gid pl parts) = pl"
  by (simp_all add: example_element_def)

lemma example_find:
  assumes "elements f = elements example_file"
  shows "find_decomposed_ifc_class (Suc (Suc (Suc (Suc 0)))) f 100 ''IfcSite'' = Inr [101]"
    and "find_decomposed_ifc_class (Suc (Suc (Suc (Suc 0)))) f 100 ''IfcBuilding'' = Inr [102]"
  unfolding find_decomposed_ifc_class_same [OF assms]
  by (simp_all add: example_deref example_is_a)

lemma example_project: "getitem (by_type example_file ''IfcProject'') 0 = Inr 100"
  by (simp add: by_type_def example_file_def example_is_a getitem_def)

lemma example_patch_site:
  "patch_each example_file [101] =
     Inr (example_file\<lparr>cartesian_points := [31 \<mapsto> [1, 2, 3], 30 \<mapsto> [0, 0, 0]],
                       directions := [40 \<mapsto> [0, 0, 1], 41 \<mapsto> [1, 0, 0]]\<rparr>)"
  by (simp add: patch_placement_to_origin_def RelativePlacement_def deref_def
      set_Coordinates_def set_DirectionRatios_def example_file_def example_element_def)

lemma example_patch_building:
  "patch_each (example_file\<lparr>cartesian_points := [31 \<mapsto> [1, 2, 3], 30 \<mapsto> [0, 0, 0]],
                       directions := [40 \<mapsto> [0, 0, 1], 41 \<mapsto> [1, 0, 0]]\<rparr>) [102] =
     Inr example_patched"
  by (simp add: patch_placement_to_origin_def RelativePlacement_def deref_def
      set_Coordinates_def set_DirectionRatios_def example_file_def example_element_def
      example_patched_def)

lemma example_patch_file:
  "patch_file (Suc (Suc (Suc (Suc 0)))) example_file = Inr example_patched"
proof -
  let ?f1 = "example_file\<lparr>cartesian_points := [31 \<mapsto> [1, 2, 3], 30 \<mapsto> [0, 0, 0]],
                       directions := [40 \<mapsto> [0, 0, 1], 41 \<mapsto> [1, 0, 0]]\<rparr>"
  have a: "find_decomposed_ifc_class (Suc (Suc (Suc (Suc 0)))) example_file 100 ''IfcSite'' = Inr [101]"
    by (rule example_find(1)) simp
  have b: "find_decomposed_ifc_class (Suc (Suc (Suc (Suc 0)))) ?f1 100 ''IfcBuilding'' = Inr [102]"
    by (rule example_find(2)) simp
  show ?thesis
    by (simp only: patch_file_def example_project a ebind.simps example_patch_site b
        example_patch_building)
qed

lemma example_patch_ifc:
  "patch_ifc (Suc (Suc (Suc (Suc 0)))) A example_clasher =
     Inr (example_clasher\<lparr>ifc := (ifc example_clasher)(A := Some example_patched)\<rparr>)"
  by (simp add: patch_ifc_patch_file the_ifc_def example_clasher_simps example_patch_file)

theorem patch_ifc_idempotent_canonical_witness:
  "patch_ifc 4 A example_clasher =
     Inr (example_clasher\<lparr>ifc := (ifc example_clasher)(A := Some example_patched)\<rparr>) \<and>
   patch_ifc 4 A (example_clasher\<lparr>ifc := (ifc example_clasher)(A := Some example_patched)\<rparr>) =
     Inr (example_clasher\<lparr>ifc := (ifc example_clasher)(A := Some example_patched)\<rparr>) \<and>
   find_decomposed_ifc_class 4 example_file 100 ''IfcSite'' = Inr [101] \<and>
   find_decomposed_ifc_class 4 example_file 100 ''IfcBuilding'' = Inr [102] \<and>
   cartesian_points example_file 30 = Some [100, 200, 5] \<and>
   cartesian_points example_patched 30 = Some [0, 0, 0] \<and>
   cartesian_points example_patched 31 = Some [0, 0, 0] \<and>
   directions example_patched 40 = Some [0, 0, 1] \<and>
   directions example_patched 41 = Some [1, 0, 0]"
proof -
  have first: "patch_ifc 4 A example_clasher =
     Inr (example_clasher\<lparr>ifc := (ifc example_clasher)(A := Some example_patched)\<rparr>)"
    unfolding four by (rule example_patch_ifc)
  from patch_ifc_idempotent_canonical [OF first]
  have again: "patch_ifc 4 A (example_clasher\<lparr>ifc := (ifc example_clasher)(A := Some example_patched)\<rparr>) =
     Inr (example_clasher\<lparr>ifc := (ifc example_clasher)(A := Some example_patched)\<rparr>)"
    by (rule conjunct1)
  have find: "find_decomposed_ifc_class 4 example_file 100 ''IfcSite'' = Inr [101]"
    "find_decomposed_ifc_class 4 example_file 100 ''IfcBuilding'' = Inr [102]"
    unfolding four by (rule example_find; simp)+
  have "cartesian_points example_file 30 = Some [100, 200, 5]"
    "cartesian_points example_patched 30 = Some [0, 0, 0]"
    "cartesian_points example_patched 31 = Some [0, 0, 0]"
    "directions example_patched 40 = Some [0, 0, 1]"
    "directions example_patched 41 = Some [1, 0, 0]"
    by (simp_all add: example_patched_def example_file_def)
  with first again find show ?thesis by (intro conjI)
qed

text \<open>
  With one direction entity as axis and as reference direction, the axis reads
  \<open>(1, 0, 0)\<close> after the normalisation: the reference direction is written last.
\<close>

lemma shared_patch_file:
  "patch_file (Suc (Suc (Suc (Suc 0)))) shared_file = Inr shared_patched"
proof -
  let ?f1 = "shared_file\<lparr>cartesian_points := [31 \<mapsto> [1, 2, 3], 30 \<mapsto> [0, 0, 0]],
                       directions := [41 \<mapsto> [0, 0, 1], 40 \<mapsto> [1, 0, 0]]\<rparr>"
  have pr: "getitem (by_type shared_file ''IfcProject'') 0 = Inr 100"
    by (simp add: by_type_def shared_file_def example_file_def example_is_a getitem_def)
  have a: "find_decomposed_ifc_class (Suc (Suc (Suc (Suc 0)))) shared_file 100 ''IfcSite'' = Inr [101]"
    by (rule example_find(1)) (simp add: shared_file_def)
  have b: "find_decomposed_ifc_class (Suc (Suc (Suc (Suc 0)))) ?f1 100 ''IfcBuilding'' = Inr [102]"
    by (rule example_find(2)) (simp add: shared_file_def)
  have s1: "patch_each shared_file [101] = Inr ?f1"
    by (simp add: patch_placement_to_origin_def RelativePlacement_def deref_def
      set_Coordinates_def set_DirectionRatios_def shared_file_def example_file_def example_element_def)
  have s2: "patch_each ?f1 [102] = Inr shared_patched"
    by (simp add: patch_placement_to_origin_def RelativePlacement_def deref_def
      set_Coordinates_def set_DirectionRatios_def shared_file_def example_file_def example_element_def
      shared_patched_def)
  show ?thesis
    by (simp only: patch_file_def pr a ebind.simps s1 b s2)
qed

theorem patch_ifc_shared_direction_counterexample:
  "patch_ifc 4 A shared_clasher =
     Inr (shared_clasher\<lparr>ifc := (ifc shared_clasher)(A := Some shared_patched)\<rparr>) \<and>
   find_decomposed_ifc_class 4 shared_file 100 ''IfcSite'' = Inr [101] \<and>
   RelativePlacement shared_patched 101 =
     Inr \<lparr>Location = Some 30, Axis = Some 40, RefDirection = Some 40\<rparr> \<and>
   directions shared_patched 40 = Some [1, 0, 0] \<and>
   directions shared_patched 40 \<noteq> Some [0, 0, 1]"
proof -
  have "patch_ifc (Suc (Suc (Suc (Suc 0)))) A shared_clasher =
     Inr (shared_clasher\<lparr>ifc := (ifc shared_clasher)(A := Some shared_patched)\<rparr>)"
    by (simp add: patch_ifc_patch_file the_ifc_def shared_clasher_def shared_patch_file)
  then have a: "patch_ifc 4 A shared_clasher =
     Inr (shared_clasher\<lparr>ifc := (ifc shared_clasher)(A := Some shared_patched)\<rparr>)"
    by (simp only: four)
  have b: "find_decomposed_ifc_class 4 shared_file 100 ''IfcSite'' = Inr [101]"
    unfolding four by (rule example_find(1)) (simp add: shared_file_def)
  have c: "RelativePlacement shared_patched 101 =
     Inr \<lparr>Location = Some 30, Axis = Some 40, RefDirection = Some 40\<rparr>"
    by (simp add: RelativePlacement_def deref_def shared_patched_def shared_file_def
        example_file_def example_element_def)
  have d: "directions shared_patched 40 = Some [1, 0, 0]"
    "directions shared_patched 40 \<noteq> Some [0, 0, 1]"
    by (simp_all add: shared_patched_def)
  from a b c d show ?thesis by (intro conjI)
qed

section \<open>The decomposition search\<close>

lemma finite_decomposition: "finite (decomposition f)"
proof -
  have "decomposition f \<subseteq> (SIGMA e : dom (map_of (elements f)). set (parts_of f e))"
  proof
    fix x assume "x \<in> decomposition f"
    then obtain e p where x: "x = (e, p)" and p: "p \<in> set (parts_of f e)"
      by (auto simp: decomposition_def)
    from p have "e \<in> dom (map_of (elements f))"
      by (cases "map_of (elements f) e") (auto simp: parts_of_def)
    with x p show "x \<in> (SIGMA e : dom (map_of (elements f)). set (parts_of f e))" by simp
  qed
  moreover have "finite (SIGMA e : dom (map_of (elements f)). set (parts_of f e))"
    by (intro finite_SigmaI finite_dom_map_of) simp
  ultimately show ?thesis by (rule finite_subset)
qed

lemma decomposed_parts_unfold:
  "decomposed_parts f c e =
     {p \<in> set (parts_of f e). is_a_part f c p} \<union> (\<Union>p \<in> set (parts_of f e). decomposed_parts f c p)"
proof -
  have "(e, q) \<in> (decomposition f)\<^sup>+ \<longleftrightarrow>
          q \<in> set (parts_of f e) \<or> (\<exists>p \<in> set (parts_of f e). (p, q) \<in> (decomposition f)\<^sup>+)" for q
  proof
    assume "(e, q) \<in> (decomposition f)\<^sup>+"
    then show "q \<in> set (parts_of f e) \<or> (\<exists>p \<in> set (parts_of f e). (p, q) \<in> (decomposition f)\<^sup>+)"
      by (cases rule: converse_tranclE) (auto simp: decomposition_def)
  next
    assume "q \<in> set (parts_of f e) \<or> (\<exists>p \<in> set (parts_of f e). (p, q) \<in> (decomposition f)\<^sup>+)"
    then show "(e, q) \<in> (decomposition f)\<^sup>+"
    proof
      assume "q \<in> set (parts_of f e)"
      then have "(e, q) \<in> decomposition f" by (simp add: decomposition_def)
      then show ?thesis by (rule r_into_trancl)
    next
      assume "\<exists>p \<in> set (parts_of f e). (p, q) \<in> (decomposition f)\<^sup>+"
      then obtain p where "(e, p) \<in> decomposition f" "(p, q) \<in> (decomposition f)\<^sup>+"
        by (auto simp: decomposition_def)
      then show ?thesis by (rule trancl_into_trancl2)
    qed
  qed
  then show ?thesis
    by (auto simp: decomposed_parts_def)
qed

text \<open>The inner loops, when every recursive call returns the parts below its argument.\<close>

lemma for_parts_result:
  assumes "\<forall>p \<in> set parts. map_of (elements f) p \<noteq> None \<and>
             (\<exists>sub. rec p = Inr sub \<and> set sub = decomposed_parts f c p)"
  shows "\<exists>out. for_parts rec f c results parts = Inr out \<and>
           set out = set results \<union> {p \<in> set parts. is_a_part f c p} \<union>
                     (\<Union>p \<in> set parts. decomposed_parts f c p)"
  using assms
proof (induction parts arbitrary: results)
  case Nil
  then show ?case by simp
next
  case (Cons part parts)
  from Cons.prems obtain el sub where el: "map_of (elements f) part = Some el"
    and sub: "rec part = Inr sub" "set sub = decomposed_parts f c part"
    by auto
  let ?results1 = "(if is_a el c then results @ [part] else results) @ sub"
  from Cons.prems have "\<forall>p \<in> set parts. map_of (elements f) p \<noteq> None \<and>
             (\<exists>sub. rec p = Inr sub \<and> set sub = decomposed_parts f c p)"
    by simp
  from Cons.IH [OF this, of ?results1] obtain out where
    out: "for_parts rec f c ?results1 parts = Inr out"
      "set out = set ?results1 \<union> {p \<in> set parts. is_a_part f c p} \<union>
                     (\<Union>p \<in> set parts. decomposed_parts f c p)"
    by blast
  have step: "for_parts rec f c results (part # parts) = Inr out"
    using out(1) by (simp add: deref_def el sub(1) Let_def)
  have m: "is_a_part f c part \<longleftrightarrow> is_a el c" by (simp add: is_a_part_def el)
  have "set out = set results \<union> {p \<in> set (part # parts). is_a_part f c p} \<union>
                     (\<Union>p \<in> set (part # parts). decomposed_parts f c p)"
    unfolding out(2) using sub(2) m by auto
  with step show ?case by blast
qed

lemma for_rels_result:
  assumes "\<forall>p \<in> set (concat rels). map_of (elements f) p \<noteq> None \<and>
             (\<exists>sub. rec p = Inr sub \<and> set sub = decomposed_parts f c p)"
  shows "\<exists>out. for_rels rec f c results rels = Inr out \<and>
           set out = set results \<union> {p \<in> set (concat rels). is_a_part f c p} \<union>
                     (\<Union>p \<in> set (concat rels). decomposed_parts f c p)"
  using assms
proof (induction rels arbitrary: results)
  case Nil
  then show ?case by simp
next
  case (Cons rel rels)
  from Cons.prems have here: "\<forall>p \<in> set rel. map_of (elements f) p \<noteq> None \<and>
             (\<exists>sub. rec p = Inr sub \<and> set sub = decomposed_parts f c p)"
    and later: "\<forall>p \<in> set (concat rels). map_of (elements f) p \<noteq> None \<and>
             (\<exists>sub. rec p = Inr sub \<and> set sub = decomposed_parts f c p)"
    by simp_all
  from for_parts_result [OF here, of results] obtain mid where
    mid: "for_parts rec f c results rel = Inr mid"
      "set mid = set results \<union> {p \<in> set rel. is_a_part f c p} \<union>
                     (\<Union>p \<in> set rel. decomposed_parts f c p)"
    by blast
  from Cons.IH [OF later, of mid] obtain out where
    out: "for_rels rec f c mid rels = Inr out"
      "set out = set mid \<union> {p \<in> set (concat rels). is_a_part f c p} \<union>
                     (\<Union>p \<in> set (concat rels). decomposed_parts f c p)"
    by blast
  have "for_rels rec f c results (rel # rels) = Inr out"
    using mid(1) out(1) by simp
  moreover have "set out = set results \<union> {p \<in> set (concat (rel # rels)). is_a_part f c p} \<union>
                     (\<Union>p \<in> set (concat (rel # rels)). decomposed_parts f c p)"
    unfolding out(2) mid(2) by auto
  ultimately show ?case by blast
qed

text \<open>One call of the search, given a depth that is enough for each part.\<close>

lemma find_decomposed_ifc_class_step:
  assumes el: "map_of (elements f) e = Some el"
    and parts: "\<forall>p \<in> set (parts_of f e). map_of (elements f) p \<noteq> None \<and>
             (\<exists>sub. find_decomposed_ifc_class l f p c = Inr sub \<and> set sub = decomposed_parts f c p)"
  shows "\<exists>results. find_decomposed_ifc_class (Suc l) f e c = Inr results \<and>
           set results = decomposed_parts f c e"
proof (cases "IsDecomposedBy el = []")
  case True
  then have "parts_of f e = []" by (simp add: parts_of_def el)
  then have "decomposed_parts f c e = {}"
    by (subst decomposed_parts_unfold) simp
  with True show ?thesis by (simp add: deref_def el)
next
  case False
  have p: "parts_of f e = concat (IsDecomposedBy el)" by (simp add: parts_of_def el)
  from for_rels_result [of "IsDecomposedBy el" f "\<lambda>part. find_decomposed_ifc_class l f part c" c "[]"]
    parts [unfolded p]
  obtain out where out: "for_rels (\<lambda>part. find_decomposed_ifc_class l f part c) f c [] (IsDecomposedBy el) = Inr out"
    "set out = set [] \<union> {p \<in> set (concat (IsDecomposedBy el)). is_a_part f c p} \<union>
                     (\<Union>p \<in> set (concat (IsDecomposedBy el)). decomposed_parts f c p)"
    by blast
  have "find_decomposed_ifc_class (Suc l) f e c = Inr out"
    using False out(1) by (simp add: deref_def el)
  moreover have "set out = decomposed_parts f c e"
    by (subst decomposed_parts_unfold) (simp add: out(2) p)
  ultimately show ?thesis by blast
qed

lemma find_decomposed_ifc_class_enough:
  assumes wf: "wf ((decomposition f)\<inverse>)"
    and linked: "\<forall>e p. (e, p) \<in> decomposition f \<longrightarrow> map_of (elements f) p \<noteq> None"
  shows "map_of (elements f) e \<noteq> None \<Longrightarrow>
     \<exists>n. \<forall>l \<ge> n. \<exists>results. find_decomposed_ifc_class l f e c = Inr results \<and>
        set results = decomposed_parts f c e"
  using wf
proof (induction e rule: wf_induct_rule)
  case (less e)
  from less.prems obtain el where el: "map_of (elements f) e = Some el" by auto
  have each: "\<forall>p \<in> set (parts_of f e). \<exists>n. \<forall>l \<ge> n. \<exists>sub.
      find_decomposed_ifc_class l f p c = Inr sub \<and> set sub = decomposed_parts f c p"
  proof
    fix p assume p: "p \<in> set (parts_of f e)"
    then have d: "(e, p) \<in> decomposition f" by (simp add: decomposition_def)
    with linked have "map_of (elements f) p \<noteq> None" by blast
    moreover from d have "(p, e) \<in> (decomposition f)\<inverse>" by simp
    ultimately show "\<exists>n. \<forall>l \<ge> n. \<exists>sub.
      find_decomposed_ifc_class l f p c = Inr sub \<and> set sub = decomposed_parts f c p"
      by (rule less.IH [rotated])
  qed
  then obtain N where N: "\<forall>p \<in> set (parts_of f e). \<forall>l \<ge> N p. \<exists>sub.
      find_decomposed_ifc_class l f p c = Inr sub \<and> set sub = decomposed_parts f c p"
    by metis
  let ?M = "sum_list (map N (parts_of f e))"
  have "\<exists>results. find_decomposed_ifc_class l f e c = Inr results \<and>
        set results = decomposed_parts f c e" if l: "l \<ge> Suc ?M" for l
  proof -
    from l obtain l' where l': "l = Suc l'" "l' \<ge> ?M" by (cases l) auto
    have "\<forall>p \<in> set (parts_of f e). map_of (elements f) p \<noteq> None \<and>
             (\<exists>sub. find_decomposed_ifc_class l' f p c = Inr sub \<and> set sub = decomposed_parts f c p)"
    proof
      fix p assume p: "p \<in> set (parts_of f e)"
      then have "N p \<le> ?M" by (simp add: member_le_sum_list)
      with l'(2) have "N p \<le> l'" by simp
      moreover from p linked have "map_of (elements f) p \<noteq> None"
        by (simp add: decomposition_def)
      ultimately show "map_of (elements f) p \<noteq> None \<and>
             (\<exists>sub. find_decomposed_ifc_class l' f p c = Inr sub \<and> set sub = decomposed_parts f c p)"
        using N p by blast
    qed
    from find_decomposed_ifc_class_step [OF el this] show ?thesis by (simp add: l'(1))
  qed
  then show ?case by blast
qed

text \<open>
  C6. In a model whose decomposition relation has no cycle (it is finite, the model being a
  file) and whose relationships refer to elements of the model, the search from an
  element, the project for one, returns once the interpreter allows enough nested calls,
  and what it returns is every element of the class looked for that the decomposition
  relation reaches from the start, at whatever depth.
\<close>

theorem find_decomposed_ifc_class_complete:
  assumes acyclic: "acyclic (decomposition f)"
    and linked: "\<forall>e p. (e, p) \<in> decomposition f \<longrightarrow> map_of (elements f) p \<noteq> None"
    and start: "map_of (elements f) project \<noteq> None"
  shows "\<exists>n. \<forall>limit \<ge> n. \<exists>results.
           find_decomposed_ifc_class limit f project c = Inr results \<and>
           set results = {p. (project, p) \<in> (decomposition f)\<^sup>+ \<and> is_a_part f c p}"
proof -
  from finite_decomposition acyclic have "wf ((decomposition f)\<inverse>)"
    by (rule finite_acyclic_wf_converse)
  from find_decomposed_ifc_class_enough [OF this linked start, of c]
  show ?thesis by (simp add: decomposed_parts_def)
qed

lemma example_parts_of:
  "parts_of example_file e = (if e = 100 then [101] else if e = 101 then [102] else [])"
  by (simp add: parts_of_def example_file_def example_element_def)

lemma example_acyclic: "acyclic (decomposition example_file)"
proof -
  have "decomposition example_file \<subseteq> {(x, y). x < y}"
    by (auto simp: decomposition_def example_parts_of split: if_splits)
  moreover have "acyclic {(x :: nat, y). x < y}"
    using wf_less by (rule wf_acyclic)
  ultimately show ?thesis by (rule acyclic_subset [rotated])
qed

lemma example_linked:
  "\<forall>e p. (e, p) \<in> decomposition example_file \<longrightarrow> map_of (elements example_file) p \<noteq> None"
proof (intro allI impI)
  fix e p assume "(e, p) \<in> decomposition example_file"
  then have "p = 101 \<or> p = 102"
    by (auto simp: decomposition_def example_parts_of split: if_splits)
  then show "map_of (elements example_file) p \<noteq> None"
    by (auto simp: example_file_def)
qed

theorem find_decomposed_ifc_class_complete_witness:
  "(\<exists>n results. find_decomposed_ifc_class n example_file 100 ''IfcBuilding'' = Inr results \<and>
      set results = {p. (100, p) \<in> (decomposition example_file)\<^sup>+ \<and>
                        is_a_part example_file ''IfcBuilding'' p}) \<and>
   find_decomposed_ifc_class 4 example_file 100 ''IfcBuilding'' = Inr [102] \<and>
   find_decomposed_ifc_class 2 example_file 100 ''IfcBuilding'' = Inl RecursionError"
proof -
  have start: "map_of (elements example_file) 100 \<noteq> None"
    by (simp add: example_file_def)
  from find_decomposed_ifc_class_complete [OF example_acyclic example_linked start, of "''IfcBuilding''"]
  have "\<exists>n results. find_decomposed_ifc_class n example_file 100 ''IfcBuilding'' = Inr results \<and>
      set results = {p. (100, p) \<in> (decomposition example_file)\<^sup>+ \<and>
                        is_a_part example_file ''IfcBuilding'' p}"
    by blast
  moreover have "find_decomposed_ifc_class 4 example_file 100 ''IfcBuilding'' = Inr [102]"
    unfolding four by (rule example_find(2)) simp
  moreover have "find_decomposed_ifc_class (Suc (Suc 0)) example_file 100 ''IfcBuilding'' =
      Inl RecursionError"
    by (simp add: example_deref example_is_a)
  then have "find_decomposed_ifc_class 2 example_file 100 ''IfcBuilding'' = Inl RecursionError"
    by (simp only: numeral_2_eq_2)
  ultimately show ?thesis by (intro conjI)
qed

section \<open>The run\<close>

text \<open>What loading a side leaves alone: the report, the settings and the tolerance.\<close>

lemma patch_ifc_frame:
  assumes "patch_ifc limit ab st = Inr st'"
  shows "\<exists>f'. st' = st\<lparr>ifc := (ifc st)(ab := Some f')\<rparr>"
  using assms by (auto simp: patch_ifc_patch_file ebind_Inr_iff)

lemma purge_elements_frame:
  assumes "purge_elements ab st = Inr st'"
  shows "\<exists>f'. st' = st\<lparr>ifc := (ifc st)(ab := Some f')\<rparr>"
  using assms by (auto simp: purge_elements_def ebind_Inr_iff)

lemma add_collision_object_frame:
  assumes "add_collision_object ab st x = Inr st'"
  shows "clashes st' = clashes st \<and> settings st' = settings st \<and> tolerance st' = tolerance st \<and>
         ifc st' = ifc st \<and> (\<forall>other. other \<noteq> ab \<longrightarrow> cm st' other = cm st other)"
proof (cases x)
  case None
  with assms show ?thesis by (simp add: add_collision_object_def)
next
  case (Some shape)
  from add_collision_object_SomeD [OF assms [unfolded Some]] show ?thesis
    by (auto split: option.splits)
qed

lemma add_each_frame:
  "add_each ab st xs = Inr st' \<Longrightarrow>
     clashes st' = clashes st \<and> settings st' = settings st \<and> tolerance st' = tolerance st \<and>
     ifc st' = ifc st \<and> (\<forall>other. other \<noteq> ab \<longrightarrow> cm st' other = cm st other)"
proof (induction xs arbitrary: st)
  case Nil
  then show ?case by simp
next
  case (Cons x xs)
  then obtain s where s: "add_collision_object ab st x = Inr s" and rest: "add_each ab s xs = Inr st'"
    by (auto simp: ebind_Inr_iff)
  from add_collision_object_frame [OF s] Cons.IH [OF rest] show ?case by simp
qed

lemma add_collision_objects_frame:
  assumes "add_collision_objects env ab st = Inr (st', r)"
  shows "clashes st' = clashes st \<and> settings st' = settings st \<and> tolerance st' = tolerance st \<and>
         ifc st' = ifc st \<and> (\<forall>other. other \<noteq> ab \<longrightarrow> cm st' other = cm st other)"
proof -
  from assms obtain f where f: "the_ifc st ab = Inr f"
    by (auto simp: add_collision_objects_def ebind_Inr_iff)
  show ?thesis
  proof (cases "initialize (iterator env f)")
    case False
    with assms f show ?thesis by (simp add: add_collision_objects_def Let_def)
  next
    case True
    with assms f have "add_each ab st (current (iterator env f) # pending (iterator env f)) = Inr st'"
      by (auto simp: add_collision_objects_def Let_def ebind_Inr_iff add_collision_loop_add_each)
    then show ?thesis by (rule add_each_frame)
  qed
qed

lemma prepare_side_frame:
  assumes "prepare_side env ab st = Inr st'"
  shows "clashes st' = clashes st \<and> settings st' = settings st \<and> tolerance st' = tolerance st \<and>
         (\<forall>other. other \<noteq> ab \<longrightarrow> cm st' other = cm st other) \<and>
         cm st' ab = Some [] \<and> (\<exists>f. ifc st' ab = Some f)"
proof -
  from assms obtain f st1 st2 where
    st1: "patch_ifc (recursion_limit env) ab (st\<lparr>ifc := (ifc st)(ab := Some f)\<rparr>) = Inr st1"
    and st2: "purge_elements ab st1 = Inr st2"
    and st': "st' = st2\<lparr>cm := (cm st2)(ab := Some [])\<rparr>"
    by (auto simp: prepare_side_def ebind_Inr_iff)
  from patch_ifc_frame [OF st1] purge_elements_frame [OF st2] st' show ?thesis
    by auto
qed

lemma load_side_frame:
  assumes "load_side env ab st = Inr st'"
  shows "clashes st' = clashes st \<and> settings st' = settings st \<and> tolerance st' = tolerance st \<and>
         (\<forall>other. other \<noteq> ab \<longrightarrow> cm st' other = cm st other)"
proof -
  from assms obtain st1 r where st1: "prepare_side env ab st = Inr st1"
    and r: "add_collision_objects env ab st1 = Inr r" and st': "st' = fst r"
    by (auto simp: load_side_def ebind_Inr_iff)
  from r st' have "add_collision_objects env ab st1 = Inr (st', snd r)" by simp
  from add_collision_objects_frame [OF this] prepare_side_frame [OF st1] show ?thesis by simp
qed

lemma clash_query_unfold:
  assumes "cm st A = Some sa" "cm st B = Some sb"
  shows "clash_query env st =
           (if \<not> fst (in_collision_other env sa sb) then Inr st
            else clash_contacts st (snd (in_collision_other env sa sb)))"
  using assms by (simp add: clash_query_def the_cm_def Let_def)

text \<open>
  C5. When the geometry iterator of a side fails to initialise,
  \<open>add_collision_objects\<close> returns \<open>False\<close> at once and raises nothing: the side is
  loaded with the empty collision manager \<open>clash\<close> created for it. The run goes on:
  for side A with loading side B and then the query, for side B with the query, which is
  made with the empty collision manager on the side that failed.
\<close>

theorem initialize_failure_leaves_empty_scene:
  assumes prep: "prepare_side env ab st = Inr st1"
    and model: "ifc st1 ab = Some f"
    and invalid: "\<not> initialize (iterator env f)"
  shows "add_collision_objects env ab st1 = Inr (st1, Some False) \<and>
         load_side env ab st = Inr st1 \<and> cm st1 ab = Some [] \<and>
         (ab = A \<longrightarrow>
            clash env st = ebind (load_side env B st1) (clash_query env) \<and>
            (\<forall>st2 sb. load_side env B st1 = Inr st2 \<and> cm st2 B = Some sb \<longrightarrow>
               cm st2 A = Some [] \<and>
               clash env st =
                 (if \<not> fst (in_collision_other env [] sb) then Inr st2
                  else clash_contacts st2 (snd (in_collision_other env [] sb))))) \<and>
         (ab = B \<longrightarrow>
            (\<forall>st0 sa. load_side env A st0 = Inr st \<and> cm st1 A = Some sa \<longrightarrow>
               clash env st0 =
                 (if \<not> fst (in_collision_other env sa []) then Inr st1
                  else clash_contacts st1 (snd (in_collision_other env sa [])))))"
proof -
  have aco: "add_collision_objects env ab st1 = Inr (st1, Some False)"
    using model invalid by (simp add: add_collision_objects_def the_ifc_def Let_def)
  have load: "load_side env ab st = Inr st1"
    by (simp add: load_side_def prep aco)
  from prepare_side_frame [OF prep] have empty: "cm st1 ab = Some []" by simp
  have a: "clash env st = ebind (load_side env B st1) (clash_query env) \<and>
            (\<forall>st2 sb. load_side env B st1 = Inr st2 \<and> cm st2 B = Some sb \<longrightarrow>
               cm st2 A = Some [] \<and>
               clash env st =
                 (if \<not> fst (in_collision_other env [] sb) then Inr st2
                  else clash_contacts st2 (snd (in_collision_other env [] sb))))" if ab: "ab = A"
  proof (intro conjI allI impI)
    show c: "clash env st = ebind (load_side env B st1) (clash_query env)"
      using load ab by (simp add: clash_def)
    fix st2 sb
    assume h: "load_side env B st1 = Inr st2 \<and> cm st2 B = Some sb"
    with load_side_frame [of env B st1 st2] empty ab show s: "cm st2 A = Some []" by simp
    from h c have "clash env st = clash_query env st2" by simp
    with clash_query_unfold [OF s, of sb env] h
    show "clash env st =
                 (if \<not> fst (in_collision_other env [] sb) then Inr st2
                  else clash_contacts st2 (snd (in_collision_other env [] sb)))"
      by simp
  qed
  have b: "\<forall>st0 sa. load_side env A st0 = Inr st \<and> cm st1 A = Some sa \<longrightarrow>
               clash env st0 =
                 (if \<not> fst (in_collision_other env sa []) then Inr st1
                  else clash_contacts st1 (snd (in_collision_other env sa [])))" if ab: "ab = B"
  proof (intro allI impI)
    fix st0 sa
    assume h: "load_side env A st0 = Inr st \<and> cm st1 A = Some sa"
    with load ab have "clash env st0 = clash_query env st1" by (simp add: clash_def)
    with clash_query_unfold [of st1 sa "[]" env] h empty ab
    show "clash env st0 =
                 (if \<not> fst (in_collision_other env sa []) then Inr st1
                  else clash_contacts st1 (snd (in_collision_other env sa [])))"
      by simp
  qed
  from aco load empty a b show ?thesis by blast
qed

lemma example_env_simps:
  "ifc_open example_env path = Inr example_file"
  "initialize (iterator example_env f) = False"
  "in_collision_other example_env a_cm b_cm = (False, [])"
  "recursion_limit example_env = Suc (Suc (Suc (Suc 0)))"
  by (simp_all add: example_env_def)

lemma example_by_type_space: "by_type example_patched ''IfcSpace'' = [104]"
  by (simp add: by_type_def example_patched_def example_file_def example_is_a)

lemma example_prepare_side:
  "prepare_side example_env ab st =
     Inr (st\<lparr>ifc := (ifc st)(ab := Some (remove example_patched 104)),
             cm := (cm st)(ab := Some [])\<rparr>)"
  by (simp add: prepare_side_def example_env_simps patch_ifc_patch_file the_ifc_def
      example_patch_file purge_elements_def example_by_type_space)

theorem initialize_failure_leaves_empty_scene_witness:
  "\<exists>st1. prepare_side example_env A (IfcClasher ''a.ifc'' ''b.ifc'' example_settings) = Inr st1 \<and>
     add_collision_objects example_env A st1 = Inr (st1, Some False) \<and>
     load_side example_env A (IfcClasher ''a.ifc'' ''b.ifc'' example_settings) = Inr st1 \<and>
     cm st1 A = Some [] \<and>
     clash example_env (IfcClasher ''a.ifc'' ''b.ifc'' example_settings) =
       ebind (load_side example_env B st1) (clash_query example_env)"
proof -
  let ?init = "IfcClasher ''a.ifc'' ''b.ifc'' example_settings"
  let ?st1 = "?init\<lparr>ifc := (ifc ?init)(A := Some (remove example_patched 104)),
                     cm := (cm ?init)(A := Some [])\<rparr>"
  have prep: "prepare_side example_env A ?init = Inr ?st1" by (rule example_prepare_side)
  have model: "ifc ?st1 A = Some (remove example_patched 104)" by simp
  have invalid: "\<not> initialize (iterator example_env (remove example_patched 104))"
    by (simp add: example_env_simps)
  from initialize_failure_leaves_empty_scene [OF prep model invalid]
  have "add_collision_objects example_env A ?st1 = Inr (?st1, Some False) \<and>
     load_side example_env A ?init = Inr ?st1 \<and> cm ?st1 A = Some [] \<and>
     clash example_env ?init = ebind (load_side example_env B ?st1) (clash_query example_env)"
    by blast
  with prep show ?thesis by blast
qed

text \<open>
  C8. When both sides are loaded and the query reports no interference, \<open>clash\<close> returns
  with the report as the new detector had it, empty; \<open>export\<close> then writes a document that
  is the empty array to the output path, so that after the run the path holds a file,
  unless the path cannot be opened for writing.
\<close>

theorem no_interference_exports_empty_array:
  assumes load_a: "load_side env A (IfcClasher a_file b_file s) = Inr st1"
    and load_b: "load_side env B st1 = Inr st2"
    and scenes: "cm st2 A = Some sa" "cm st2 B = Some sb"
    and none: "\<not> fst (in_collision_other env sa sb)"
  shows "clash env (IfcClasher a_file b_file s) = Inr st2 \<and> clashes st2 = [] \<and>
         (\<not> denied fs (output s) \<longrightarrow>
            export st2 fs = Inr (fs\<lparr>files := (files fs)(output s \<mapsto> JArray [])\<rparr>) \<and>
            main env a_file b_file s fs = Inr (fs\<lparr>files := (files fs)(output s \<mapsto> JArray [])\<rparr>) \<and>
            (\<forall>fs'. main env a_file b_file s fs = Inr fs' \<longrightarrow> files fs' (output s) = Some (JArray [])))"
proof -
  from load_side_frame [OF load_a] load_side_frame [OF load_b]
  have fr: "clashes st2 = []" "settings st2 = s"
    by (simp_all add: IfcClasher_def)
  have run: "clash env (IfcClasher a_file b_file s) = Inr st2"
    using load_a load_b clash_query_unfold [OF scenes, of env] none by (simp add: clash_def)
  have ex: "export st2 fs = Inr (fs\<lparr>files := (files fs)(output s \<mapsto> JArray [])\<rparr>)"
    if "\<not> denied fs (output s)"
    using that by (simp add: export_def fr Let_def)
  from run fr(1) ex show ?thesis by (auto simp: main_def)
qed

lemma example_load_side:
  "load_side example_env ab st =
     Inr (st\<lparr>ifc := (ifc st)(ab := Some (remove example_patched 104)),
             cm := (cm st)(ab := Some [])\<rparr>)"
  by (simp add: load_side_def example_prepare_side add_collision_objects_def the_ifc_def
      example_env_simps Let_def)

theorem no_interference_exports_empty_array_witness:
  "\<exists>st2. clash example_env (IfcClasher ''a.ifc'' ''b.ifc'' example_settings) = Inr st2 \<and>
     clashes st2 = [] \<and>
     main example_env ''a.ifc'' ''b.ifc'' example_settings example_fs =
       Inr (example_fs\<lparr>files := (files example_fs)(''clashes.json'' \<mapsto> JArray [])\<rparr>) \<and>
     export st2 example_fs =
       Inr (example_fs\<lparr>files := (files example_fs)(''clashes.json'' \<mapsto> JArray [])\<rparr>)"
proof -
  let ?init = "IfcClasher ''a.ifc'' ''b.ifc'' example_settings"
  let ?st1 = "?init\<lparr>ifc := (ifc ?init)(A := Some (remove example_patched 104)),
                     cm := (cm ?init)(A := Some [])\<rparr>"
  let ?st2 = "?st1\<lparr>ifc := (ifc ?st1)(B := Some (remove example_patched 104)),
                     cm := (cm ?st1)(B := Some [])\<rparr>"
  have load_a: "load_side example_env A ?init = Inr ?st1" by (rule example_load_side)
  have load_b: "load_side example_env B ?st1 = Inr ?st2" by (rule example_load_side)
  have scenes: "cm ?st2 A = Some []" "cm ?st2 B = Some []" by simp_all
  have none: "\<not> fst (in_collision_other example_env [] [])"
    by (simp add: example_env_simps)
  have path: "output example_settings = ''clashes.json''" "\<not> denied example_fs (output example_settings)"
    by (simp_all add: example_settings_def example_fs_def)
  from no_interference_exports_empty_array [OF load_a load_b scenes none, of example_fs] path
  have "clash example_env ?init = Inr ?st2 \<and> clashes ?st2 = [] \<and>
     main example_env ''a.ifc'' ''b.ifc'' example_settings example_fs =
       Inr (example_fs\<lparr>files := (files example_fs)(''clashes.json'' \<mapsto> JArray [])\<rparr>) \<and>
     export ?st2 example_fs =
       Inr (example_fs\<lparr>files := (files example_fs)(''clashes.json'' \<mapsto> JArray [])\<rparr>)"
    by (simp only: simp_thms)
  then show ?thesis by blast
qed

end
